theory Spec2Isabelle
  imports Main "HOL-Library.AList"
begin

section \<open>Quality tiers and the master playlist\<close>

text \<open>
  The lookup tables of \<open>StreamingService.getResolution\<close>, \<open>getBitrate\<close> and
  \<open>getBandwidth\<close> are object literals, indexed by the tier name. An object literal has
  its own entries and inherits the members of \<open>Object.prototype\<close>: a look-up finds an
  own entry, else the inherited member of that name (a function, or for \<open>__proto__\<close> the
  prototype object), else \<open>undefined\<close> (\<open>None\<close>). A value is a string, a number, or
  such an inherited member, known by its name.
\<close>

datatype js_value = JString string | JNumber nat | JInherited string

definition object_prototype_names :: "string list" where
  "object_prototype_names =
    [''constructor'', ''__defineGetter__'', ''__defineSetter__'', ''hasOwnProperty'',
     ''__lookupGetter__'', ''__lookupSetter__'', ''isPrototypeOf'', ''propertyIsEnumerable'',
     ''toString'', ''valueOf'', ''__proto__'', ''toLocaleString'']"

definition property_get :: "(string \<times> js_value) list \<Rightarrow> string \<Rightarrow> js_value option" where
  "property_get obj key =
    (case map_of obj key of
       Some v \<Rightarrow> Some v
     | None \<Rightarrow> if key \<in> set object_prototype_names then Some (JInherited key) else None)"

text \<open>
  The operator \<open>||\<close> takes its right operand when the left one is \<open>undefined\<close>, the
  empty string or zero; functions and objects are kept.
\<close>

definition truthy_value :: "js_value \<Rightarrow> bool" where
  "truthy_value v = (case v of JString s \<Rightarrow> s \<noteq> [] | JNumber n \<Rightarrow> n \<noteq> 0 | JInherited name \<Rightarrow> True)"

definition js_or :: "js_value option \<Rightarrow> js_value \<Rightarrow> js_value" where
  "js_or v d = (case v of None \<Rightarrow> d | Some x \<Rightarrow> if truthy_value x then x else d)"

definition or_string :: "string option \<Rightarrow> string \<Rightarrow> string" where
  "or_string v d = (case v of None \<Rightarrow> d | Some s \<Rightarrow> if s = [] then d else s)"

definition resolutions :: "(string \<times> js_value) list" where
  "resolutions =
    [(''240p'', JString ''426x240''),
     (''360p'', JString ''640x360''),
     (''480p'', JString ''854x480''),
     (''720p'', JString ''1280x720''),
     (''1080p'', JString ''1920x1080'')]"

definition getResolution :: "string \<Rightarrow> js_value" where
  "getResolution quality = js_or (property_get resolutions quality) (JString ''640x360'')"

definition bitrates :: "(string \<times> js_value) list" where
  "bitrates =
    [(''240p'', JString ''400k''),
     (''360p'', JString ''800k''),
     (''480p'', JString ''1200k''),
     (''720p'', JString ''2500k''),
     (''1080p'', JString ''5000k'')]"

definition getBitrate :: "string \<Rightarrow> js_value" where
  "getBitrate quality = js_or (property_get bitrates quality) (JString ''800k'')"

definition bandwidths :: "(string \<times> js_value) list" where
  "bandwidths =
    [(''240p'', JNumber 500000),
     (''360p'', JNumber 1000000),
     (''480p'', JNumber 1500000),
     (''720p'', JNumber 3000000),
     (''1080p'', JNumber 6000000)]"

definition getBandwidth :: "string \<Rightarrow> js_value" where
  "getBandwidth quality = js_or (property_get bandwidths quality) (JNumber 1000000)"

text \<open>
  What a template literal writes for a value: a string as it is, a number in decimal, a
  built-in function as \<open>function name() { [native code] }\<close> (the member
  \<open>constructor\<close> is the function \<open>Object\<close>), and the prototype object as
  \<open>[object Object]\<close>. \<open>newline\<close> is the character \<open>\n\<close> of the source's string
  literals.
\<close>

definition digit_char :: "nat \<Rightarrow> char" where
  "digit_char d = ''0123456789'' ! d"

fun string_of_nat :: "nat \<Rightarrow> string" where
  "string_of_nat n =
    (if n < 10 then [digit_char n] else string_of_nat (n div 10) @ [digit_char (n mod 10)])"

declare string_of_nat.simps [simp del]

definition inherited_text :: "string \<Rightarrow> string" where
  "inherited_text name =
    (if name = ''__proto__'' then ''[object Object]''
     else ''function '' @ (if name = ''constructor'' then ''Object'' else name)
          @ ''() { [native code] }'')"

definition js_to_string :: "js_value \<Rightarrow> string" where
  "js_to_string v =
    (case v of JString s \<Rightarrow> s | JNumber n \<Rightarrow> string_of_nat n | JInherited name \<Rightarrow> inherited_text name)"

definition newline :: string where
  "newline = [CHR 0x0A]"

text \<open>
  \<open>generateMasterPlaylist\<close>: the \<open>forEach\<close> over \<open>qualities\<close> appends two lines
  and an empty line per quality to the header. The result is the text handed to
  \<open>fs.writeFileSync\<close> for \<open>playlist.m3u8\<close>.
\<close>

definition masterPlaylist_header :: string where
  "masterPlaylist_header = ''#EXTM3U'' @ newline @ ''#EXT-X-VERSION:3'' @ newline @ newline"

definition masterPlaylist_append :: "string \<Rightarrow> string \<Rightarrow> string" where
  "masterPlaylist_append masterPlaylist quality =
    (let bandwidth = getBandwidth quality;
         resolution = getResolution quality;
         masterPlaylist1 = masterPlaylist @ ''#EXT-X-STREAM-INF:BANDWIDTH='' @ js_to_string bandwidth
            @ '',RESOLUTION='' @ js_to_string resolution @ newline
     in masterPlaylist1 @ quality @ ''.m3u8'' @ newline @ newline)"

definition generateMasterPlaylist :: "string list \<Rightarrow> string" where
  "generateMasterPlaylist qualities = foldl masterPlaylist_append masterPlaylist_header qualities"

text \<open>
  The target bit rate that \<open>generateHLS\<close> passes to the engine as \<open>-b:v\<close> is the
  value of \<open>getBitrate\<close>; a string of the table is digits followed by \<open>k\<close> for a
  factor of 1000. Its value in bits per second, to compare it with a \<open>BANDWIDTH\<close>:
\<close>

definition digit_value :: "char \<Rightarrow> nat option" where
  "digit_value c =
    map_of [(CHR ''0'', 0), (CHR ''1'', 1), (CHR ''2'', 2), (CHR ''3'', 3), (CHR ''4'', 4),
            (CHR ''5'', 5), (CHR ''6'', 6), (CHR ''7'', 7), (CHR ''8'', 8), (CHR ''9'', 9)] c"

fun digits_value :: "nat \<Rightarrow> string \<Rightarrow> nat option" where
  "digits_value acc [] = Some acc"
| "digits_value acc (c # cs) =
    (case digit_value c of None \<Rightarrow> None | Some d \<Rightarrow> digits_value (10 * acc + d) cs)"

definition bitrate_bps :: "string \<Rightarrow> nat option" where
  "bitrate_bps b =
    (if b \<noteq> [] \<and> last b = CHR ''k'' \<and> butlast b \<noteq> []
     then map_option (\<lambda>n. n * 1000) (digits_value 0 (butlast b))
     else None)"

text \<open>The tier names of the default configuration (\<open>this.config.qualities || [...]\<close>).\<close>

definition default_qualities :: "string list" where
  "default_qualities = [''720p'', ''480p'', ''360p'']"

section \<open>Paths and the asset store\<close>

text \<open>
  Node's \<open>path.join\<close>, \<open>path.normalize\<close> and \<open>path.resolve\<close> (POSIX flavour), which
  the service uses to form every file name. \<open>normalizeString\<close> walks over the segments
  between separators: an empty segment and \<open>.\<close> are skipped, \<open>..\<close> removes the last
  segment kept so far (when there is one that is not itself \<open>..\<close>) and is otherwise
  kept only in a relative path, any other segment is kept.
\<close>

fun split_path :: "string \<Rightarrow> string list" where
  "split_path [] = [[]]"
| "split_path (c # cs) =
    (if c = CHR ''/'' then [] # split_path cs
     else (case split_path cs of [] \<Rightarrow> [[c]] | s # ss \<Rightarrow> (c # s) # ss))"

fun join_segments :: "string list \<Rightarrow> string" where
  "join_segments [] = []"
| "join_segments [s] = s"
| "join_segments (s # t # ss) = s @ ''/'' @ join_segments (t # ss)"

definition normalize_step :: "bool \<Rightarrow> string list \<Rightarrow> string \<Rightarrow> string list" where
  "normalize_step allowAboveRoot res seg =
    (if seg = [] \<or> seg = ''.'' then res
     else if seg = ''..'' then
       (if res \<noteq> [] \<and> last res \<noteq> ''..'' then butlast res
        else if allowAboveRoot then res @ [''..''] else res)
     else res @ [seg])"

definition normalizeString :: "bool \<Rightarrow> string \<Rightarrow> string list" where
  "normalizeString allowAboveRoot path = foldl (normalize_step allowAboveRoot) [] (split_path path)"

definition isAbsolute :: "string \<Rightarrow> bool" where
  "isAbsolute path = (case path of [] \<Rightarrow> False | c # _ \<Rightarrow> c = CHR ''/'')"

definition path_normalize :: "string \<Rightarrow> string" where
  "path_normalize path =
    (if path = [] then ''.''
     else
       (let trailingSeparator = (last path = CHR ''/'');
            p = join_segments (normalizeString (\<not> isAbsolute path) path)
        in if p = [] then (if isAbsolute path then ''/'' else if trailingSeparator then ''./'' else ''.'')
           else (let p1 = (if trailingSeparator then p @ ''/'' else p)
                 in if isAbsolute path then ''/'' @ p1 else p1)))"

definition path_join :: "string list \<Rightarrow> string" where
  "path_join args =
    (let parts = filter (\<lambda>arg. arg \<noteq> []) args
     in if parts = [] then ''.'' else path_normalize (join_segments parts))"

text \<open>
  \<open>path.resolve\<close> of one path against the working directory \<open>cwd\<close> of the process
  (an absolute path): the absolute path without \<open>.\<close>, \<open>..\<close> or a trailing separator.
  \<open>resolved_segments\<close> are its components.
\<close>

definition resolved_segments :: "string \<Rightarrow> string \<Rightarrow> string list" where
  "resolved_segments cwd path =
    normalizeString False (if isAbsolute path then path else cwd @ ''/'' @ path)"

definition path_resolve :: "string \<Rightarrow> string \<Rightarrow> string" where
  "path_resolve cwd path = ''/'' @ join_segments (resolved_segments cwd path)"

text \<open>
  The asset store is the file system of the process: its working directory and what is
  stored under each absolute path, a file with its bytes or a directory.
  \<open>fs.existsSync\<close> holds for a path at which a file or a directory is stored; it does
  not hold for the empty path, for a path with a NUL character, or for the path of a file
  followed by a separator.
\<close>

datatype node = File string | Directory

record file_system =
  cwd :: string
  nodes :: "string \<rightharpoonup> node"

definition trailing_separator :: "string \<Rightarrow> bool" where
  "trailing_separator path = (path \<noteq> [] \<and> last path = CHR ''/'')"

definition existsSync :: "file_system \<Rightarrow> string \<Rightarrow> bool" where
  "existsSync fs path =
    (if path = [] \<or> CHR 0x00 \<in> set path then False
     else (case nodes fs (path_resolve (cwd fs) path) of
             None \<Rightarrow> False
           | Some (File bytes) \<Rightarrow> \<not> trailing_separator path
           | Some Directory \<Rightarrow> True))"


section \<open>Configuration and video records\<close>

record storage_config =
  videosPath :: string
  chunksPath :: string

record transcoding_config =
  transcoding_enabled :: bool
  concurrent :: nat

record streaming_config =
  enabled :: bool
  provider :: string
  formats :: "string list option"
  qualities :: "string list option"
  storage :: "storage_config option"
  transcoding :: "transcoding_config option"

text \<open>\<open>this.config.storage?.videosPath || "./uploads/videos"\<close> and its sibling.\<close>

definition config_videosPath :: "streaming_config \<Rightarrow> string" where
  "config_videosPath config = or_string (map_option videosPath (storage config)) ''./uploads/videos''"

definition config_chunksPath :: "streaming_config \<Rightarrow> string" where
  "config_chunksPath config = or_string (map_option chunksPath (storage config)) ''./uploads/chunks''"

text \<open>\<open>this.config.qualities || ["720p", "480p", "360p"]\<close>: an array, also an empty one, is kept.\<close>

definition config_qualities :: "streaming_config \<Rightarrow> string list" where
  "config_qualities config = (case qualities config of None \<Rightarrow> default_qualities | Some qs \<Rightarrow> qs)"

text \<open>\<open>this.config.formats?.includes("hls")\<close>\<close>

definition formats_include_hls :: "streaming_config \<Rightarrow> bool" where
  "formats_include_hls config = (case formats config of None \<Rightarrow> False | Some fs \<Rightarrow> ''hls'' \<in> set fs)"

text \<open>
  The outputs that \<open>generateHLS\<close> adds to the engine's command, in the order in which
  it adds them: one per quality, then the master playlist.
\<close>

definition generateHLS_outputs :: "string \<Rightarrow> string list \<Rightarrow> (string \<times> string list) list" where
  "generateHLS_outputs outputDir qs =
    map (\<lambda>quality.
          (path_join [outputDir, quality @ ''.m3u8''],
           [''-s '' @ js_to_string (getResolution quality),
            ''-b:v '' @ js_to_string (getBitrate quality), ''-f hls''])) qs
    @ [(path_join [outputDir, ''playlist.m3u8''],
        [''-f hls'', ''-hls_segment_type mpegts'', ''-hls_flags independent_segments''])]"

datatype video_status = Uploading | Processing | Ready | Error

definition status_string :: "video_status \<Rightarrow> string" where
  "status_string st =
    (case st of Uploading \<Rightarrow> ''uploading'' | Processing \<Rightarrow> ''processing''
              | Ready \<Rightarrow> ''ready'' | Error \<Rightarrow> ''error'')"

record streaming_urls =
  hls :: "string option"
  dash :: "string option"

text \<open>
  \<open>interface Video\<close>. The fields \<open>id\<close> and \<open>size\<close> are \<open>video_id\<close> and
  \<open>video_size\<close> here; dates are clock readings.
\<close>

record video =
  video_id :: string
  title :: string
  description :: "string option"
  userId :: string
  filename :: string
  originalUrl :: string
  streamingUrls :: "streaming_urls option"
  thumbnailUrl :: "string option"
  duration :: "nat option"
  video_size :: nat
  status :: video_status
  createdAt :: nat
  updatedAt :: nat

section \<open>The service state and its atomic steps\<close>

text \<open>
  Video objects are shared by reference: the \<open>Map\<close> \<open>this.videos\<close>, the upload handler
  and a running \<open>processVideo\<close> all hold the same object. \<open>heap\<close> is the store of the
  objects allocated so far, a reference is an index into it. \<open>videos\<close> is the
  \<open>Map\<close> with its keys in insertion order: \<open>set\<close> is \<open>AList.update\<close> (an existing
  key keeps its place, a new one goes to the end), \<open>get\<close> is \<open>map_of\<close>,
  \<open>delete\<close> is \<open>AList.delete\<close>.

  \<open>processVideo\<close> is an \<open>async\<close> function: a call runs its body up to the first
  \<open>await\<close> before it returns to the caller, and each later piece runs, without
  interruption, when the awaited promise is settled. A \<open>job\<close> is a call of
  \<open>processVideo\<close> suspended in one of its four \<open>await\<close>s.
\<close>

datatype stage = AwaitEnsureDir | AwaitThumbnail | AwaitMetadata | AwaitHLS

record job =
  job_video :: nat
  job_videoId :: string
  job_stage :: stage

record service_state =
  heap :: "video list"
  videos :: "(string \<times> nat) list"
  processingQueue :: "string list"
  jobs :: "job list"

definition initial_state :: service_state where
  "initial_state = \<lparr>heap = [], videos = [], processingQueue = [], jobs = []\<rparr>"

text \<open>How an awaited promise is settled; the probe's promise carries the duration.\<close>

datatype outcome = Fulfilled "nat option" | Rejected

definition modify_video :: "nat \<Rightarrow> (video \<Rightarrow> video) \<Rightarrow> service_state \<Rightarrow> service_state" where
  "modify_video r f s = s\<lparr>heap := (heap s)[r := f (heap s ! r)]\<rparr>"

definition videos_set :: "string \<Rightarrow> nat \<Rightarrow> service_state \<Rightarrow> service_state" where
  "videos_set videoId r s = s\<lparr>videos := AList.update videoId r (videos s)\<rparr>"

definition suspend :: "job \<Rightarrow> stage \<Rightarrow> service_state \<Rightarrow> service_state" where
  "suspend j st s = s\<lparr>jobs := jobs s @ [j\<lparr>job_stage := st\<rparr>]\<rparr>"

text \<open>\<open>processVideo\<close> from its entry to \<open>await fs.ensureDir(outputDir)\<close>.\<close>

definition processVideo_start :: "service_state \<Rightarrow> string \<Rightarrow> nat \<Rightarrow> service_state" where
  "processVideo_start s videoId now =
    (case map_of (videos s) videoId of
       None \<Rightarrow> s
     | Some r \<Rightarrow>
         suspend \<lparr>job_video = r, job_videoId = videoId, job_stage = AwaitEnsureDir\<rparr> AwaitEnsureDir
           (videos_set videoId r
             (modify_video r (\<lambda>v. v\<lparr>status := Processing, updatedAt := now\<rparr>) s)))"

text \<open>The end of the \<open>try\<close> block, after the last \<open>await\<close>.\<close>

definition processVideo_finish :: "service_state \<Rightarrow> job \<Rightarrow> nat \<Rightarrow> service_state" where
  "processVideo_finish s j now =
    videos_set (job_videoId j) (job_video j)
      (modify_video (job_video j)
        (\<lambda>v. v\<lparr>status := Ready,
                streamingUrls := Some \<lparr>hls = Some (''/streaming/stream/'' @ job_videoId j @ ''/playlist.m3u8''),
                                        dash = None\<rparr>,
                thumbnailUrl := Some (''/streaming/thumbnails/'' @ job_videoId j),
                updatedAt := now\<rparr>) s)"

text \<open>The \<open>catch\<close> block.\<close>

definition processVideo_catch :: "service_state \<Rightarrow> job \<Rightarrow> nat \<Rightarrow> service_state" where
  "processVideo_catch s j now =
    videos_set (job_videoId j) (job_video j)
      (modify_video (job_video j) (\<lambda>v. v\<lparr>status := Error, updatedAt := now\<rparr>) s)"

text \<open>
  \<open>processVideo\<close> from the \<open>await\<close> in which \<open>j\<close> is suspended to the next one, or to
  its end; \<open>s\<close> is the state without the job.
\<close>

definition processVideo_resume ::
  "streaming_config \<Rightarrow> service_state \<Rightarrow> job \<Rightarrow> outcome \<Rightarrow> nat \<Rightarrow> service_state" where
  "processVideo_resume config s j out now =
    (case out of
       Rejected \<Rightarrow> processVideo_catch s j now
     | Fulfilled metadata_duration \<Rightarrow>
        (case job_stage j of
           AwaitEnsureDir \<Rightarrow> suspend j AwaitThumbnail s
         | AwaitThumbnail \<Rightarrow> suspend j AwaitMetadata s
         | AwaitMetadata \<Rightarrow>
             (let s1 = modify_video (job_video j) (\<lambda>v. v\<lparr>duration := metadata_duration\<rparr>) s
              in if formats_include_hls config then suspend j AwaitHLS s1
                 else processVideo_finish s1 j now)
         | AwaitHLS \<Rightarrow> processVideo_finish s j now))"

section \<open>The routes\<close>

text \<open>
  \<open>POST /upload\<close>, after \<open>multer\<close> has stored the file. \<open>uuid\<close> is the value of
  \<open>uuidv4()\<close> and \<open>now\<close> the clock. The handler allocates the record, puts it
  into the \<open>Map\<close>, calls \<open>this.processVideo(video.id)\<close> without awaiting it, and then
  builds the response from the fields of the same object.
\<close>

record upload_file =
  originalname :: string
  file_filename :: string
  file_size :: nat

record upload_request =
  req_file :: "upload_file option"
  body_title :: "string option"
  body_description :: "string option"
  req_user_id :: "string option"

record video_summary =
  summary_id :: string
  summary_title :: string
  summary_status :: video_status
  summary_originalUrl :: string

datatype upload_response = UploadCreated video_summary | UploadFailed nat string

definition new_video :: "upload_request \<Rightarrow> upload_file \<Rightarrow> string \<Rightarrow> nat \<Rightarrow> video" where
  "new_video req f uuid now =
    \<lparr>video_id = uuid,
     title = or_string (body_title req) (originalname f),
     description = body_description req,
     userId = or_string (req_user_id req) ''anonymous'',
     filename = file_filename f,
     originalUrl = ''/streaming/videos/'' @ file_filename f,
     streamingUrls = None,
     thumbnailUrl = None,
     duration = None,
     video_size = file_size f,
     status = Uploading,
     createdAt = now,
     updatedAt = now\<rparr>"

definition upload_handler ::
  "service_state \<Rightarrow> upload_request \<Rightarrow> string \<Rightarrow> nat \<Rightarrow> service_state \<times> upload_response" where
  "upload_handler s req uuid now =
    (case req_file req of
       None \<Rightarrow> (s, UploadFailed 400 ''No video file provided'')
     | Some f \<Rightarrow>
        (let r = length (heap s);
             s1 = videos_set uuid r (s\<lparr>heap := heap s @ [new_video req f uuid now]\<rparr>);
             s2 = processVideo_start s1 uuid now;
             video = heap s2 ! r
         in (s2, UploadCreated \<lparr>summary_id = video_id video, summary_title = title video,
                                 summary_status = status video,
                                 summary_originalUrl = originalUrl video\<rparr>)))"

text \<open>
  The responses of the delivery routes. \<open>res.sendFile(path)\<close>, with an absolute path
  and no options, is Express with its \<open>send\<close> module: a path whose last component
  begins with a dot (a dot-file) is refused, Express answers 404 through its error
  handling and sends nothing (\<open>SendFileRefused\<close>), as it does when nothing is stored at
  the path; for a directory the request is passed on to the next handler and nothing is
  sent (\<open>SendFileSkipped\<close>); a file is sent, with the content type that the route has
  set (\<open>SendFile contentType bytes\<close>). This is the rule of Express 4 for dot-files;
  Express 5 refuses a path as soon as one of its components begins with a dot.
  Conditional and range requests are left out.
\<close>

datatype response =
    JsonError nat string
  | JsonVideo video
  | SendFile string string
  | SendFileRefused
  | SendFileSkipped

definition dotfile :: "string \<Rightarrow> bool" where
  "dotfile part = (1 < length part \<and> hd part = CHR ''.'')"

definition sendFile :: "file_system \<Rightarrow> string \<Rightarrow> string \<Rightarrow> response" where
  "sendFile fs contentType path =
    (let parts = split_path path
     in if (\<exists>part \<in> set parts. dotfile part)
           \<and> (case last parts of [] \<Rightarrow> False | c # cs \<Rightarrow> c = CHR ''.'')
        then SendFileRefused
        else (case nodes fs path of
                Some (File bytes) \<Rightarrow> SendFile contentType bytes
              | Some Directory \<Rightarrow> SendFileSkipped
              | None \<Rightarrow> SendFileRefused))"

text \<open>\<open>GET /videos/:id\<close>\<close>

definition video_handler :: "service_state \<Rightarrow> string \<Rightarrow> response" where
  "video_handler s ident =
    (case map_of (videos s) ident of
       None \<Rightarrow> JsonError 404 ''Video not found''
     | Some r \<Rightarrow> JsonVideo (heap s ! r))"

text \<open>\<open>!video || video.status !== "ready"\<close>\<close>

definition not_ready :: "service_state \<Rightarrow> string \<Rightarrow> bool" where
  "not_ready s ident =
    (case map_of (videos s) ident of None \<Rightarrow> True | Some r \<Rightarrow> status (heap s ! r) \<noteq> Ready)"

text \<open>\<open>GET /stream/:id/playlist.m3u8\<close>\<close>

definition playlist_handler ::
  "streaming_config \<Rightarrow> file_system \<Rightarrow> service_state \<Rightarrow> string \<Rightarrow> response" where
  "playlist_handler config fs s ident =
    (if not_ready s ident then JsonError 404 ''Video not ready for streaming''
     else
       (let playlistPath = path_join [config_chunksPath config, ident, ''playlist.m3u8'']
        in if \<not> existsSync fs playlistPath then JsonError 404 ''Playlist not found''
           else sendFile fs ''application/vnd.apple.mpegurl'' (path_resolve (cwd fs) playlistPath)))"


text \<open>
  \<open>GET /videos\<close>. \<open>Array.prototype.slice\<close> on whole numbers: a negative index counts
  from the end, and both ends are clamped to the array. The query's \<open>page\<close> and
  \<open>limit\<close> are taken as \<open>Number\<close> has converted them, and as whole numbers.
\<close>

definition js_slice :: "'a list \<Rightarrow> int \<Rightarrow> int \<Rightarrow> 'a list" where
  "js_slice xs start end =
    (let len = int (length xs);
         k = (if start < 0 then max (len + start) 0 else min start len);
         final = (if end < 0 then max (len + end) 0 else min end len)
     in take (nat (final - k)) (drop (nat k) xs))"

record list_query =
  query_userId :: "string option"
  query_status :: "string option"
  query_page :: "int option"
  query_limit :: "int option"

record pagination =
  page :: int
  limit :: int
  total :: nat
  pages :: "int option"

definition truthy :: "string option \<Rightarrow> bool" where
  "truthy v = (case v of None \<Rightarrow> False | Some s \<Rightarrow> s \<noteq> [])"

text \<open>
  The records that pass the two filters, in the order of \<open>this.videos.values()\<close>.
\<close>

definition matching_videos :: "service_state \<Rightarrow> list_query \<Rightarrow> video list" where
  "matching_videos s q =
    (let vs = map (\<lambda>(k, r). heap s ! r) (videos s);
         vs1 = (if truthy (query_userId q) then filter (\<lambda>v. Some (userId v) = query_userId q) vs else vs);
         vs2 = (if truthy (query_status q)
                then filter (\<lambda>v. Some (status_string (status v)) = query_status q) vs1 else vs1)
     in vs2)"

text \<open>
  \<open>Math.ceil(videos.length / Number(limit))\<close> is not a finite number when \<open>limit\<close> is
  0 (\<open>None\<close>).
\<close>

definition list_handler :: "service_state \<Rightarrow> list_query \<Rightarrow> video list \<times> pagination" where
  "list_handler s q =
    (let pg = (case query_page q of None \<Rightarrow> 1 | Some p \<Rightarrow> p);
         lim = (case query_limit q of None \<Rightarrow> 10 | Some l \<Rightarrow> l);
         vs = matching_videos s q;
         startIndex = (pg - 1) * lim;
         endIndex = startIndex + lim;
         paginatedVideos = js_slice vs startIndex endIndex
     in (paginatedVideos,
         \<lparr>page = pg, limit = lim, total = length vs,
          pages = (if lim = 0 then None else Some (- ((- int (length vs)) div lim)))\<rparr>))"

section \<open>Runs of the service\<close>

text \<open>
  What changes the state, one atomic step at a time: an accepted or refused upload, the
  settling of the promise that the job of a record waits for, and the
  \<open>this.videos.delete(id)\<close> of the delete route.
\<close>

datatype event =
    Upload upload_request string nat
  | Settle nat outcome nat
  | Delete string

definition step :: "streaming_config \<Rightarrow> service_state \<Rightarrow> event \<Rightarrow> service_state" where
  "step config s e =
    (case e of
       Upload req uuid now \<Rightarrow> fst (upload_handler s req uuid now)
     | Settle r out now \<Rightarrow>
        (case find (\<lambda>j. job_video j = r) (jobs s) of
           None \<Rightarrow> s
         | Some j \<Rightarrow>
             processVideo_resume config (s\<lparr>jobs := filter (\<lambda>j'. job_video j' \<noteq> r) (jobs s)\<rparr>) j out now)
     | Delete ident \<Rightarrow> s\<lparr>videos := AList.delete ident (videos s)\<rparr>)"

definition run :: "streaming_config \<Rightarrow> event list \<Rightarrow> service_state" where
  "run config evs = foldl (step config) initial_state evs"

text \<open>
  The transcode engine and the file system as they answer one job: how each of the four
  awaited operations ends. \<open>processVideo_complete\<close> settles the job of record \<open>r\<close>
  by these answers until it has ended (a job has at most four \<open>await\<close>s).
\<close>

record engine =
  on_ensureDir :: outcome
  on_thumbnail :: outcome
  on_metadata :: outcome
  on_hls :: outcome

definition engine_outcome :: "engine \<Rightarrow> stage \<Rightarrow> outcome" where
  "engine_outcome eng st =
    (case st of AwaitEnsureDir \<Rightarrow> on_ensureDir eng | AwaitThumbnail \<Rightarrow> on_thumbnail eng
              | AwaitMetadata \<Rightarrow> on_metadata eng | AwaitHLS \<Rightarrow> on_hls eng)"

definition drive :: "streaming_config \<Rightarrow> engine \<Rightarrow> nat \<Rightarrow> nat \<Rightarrow> service_state \<Rightarrow> service_state" where
  "drive config eng now r s =
    (case find (\<lambda>j. job_video j = r) (jobs s) of
       None \<Rightarrow> s
     | Some j \<Rightarrow> step config s (Settle r (engine_outcome eng (job_stage j)) now))"

definition processVideo_complete ::
  "streaming_config \<Rightarrow> engine \<Rightarrow> nat \<Rightarrow> nat \<Rightarrow> service_state \<Rightarrow> service_state" where
  "processVideo_complete config eng now r s =
    drive config eng now r (drive config eng now r (drive config eng now r (drive config eng now r s)))"

text \<open>An event that is an upload with a file, which the upload route accepts.\<close>

definition accepted_upload :: "event \<Rightarrow> bool" where
  "accepted_upload e = (case e of Upload req uuid now \<Rightarrow> req_file req \<noteq> None | _ \<Rightarrow> False)"

text \<open>
  The accepted uploads of a run, in their order: the id and the clock of each. An event
  of the delete route.
\<close>

definition upload_of :: "event \<Rightarrow> (string \<times> nat) list" where
  "upload_of e =
    (case e of
       Upload req uuid now \<Rightarrow> (if req_file req = None then [] else [(uuid, now)])
     | Settle r out now \<Rightarrow> []
     | Delete ident \<Rightarrow> [])"

definition uploads :: "event list \<Rightarrow> (string \<times> nat) list" where
  "uploads evs = concat (map upload_of evs)"

definition is_delete :: "event \<Rightarrow> bool" where
  "is_delete e = (case e of Delete ident \<Rightarrow> True | _ \<Rightarrow> False)"

section \<open>Example inputs\<close>

text \<open>
  The streaming section of the default configuration of \<open>ConfigManager\<close>, with
  streaming enabled, and uploads of files without title, description or user.
\<close>

definition default_config :: streaming_config where
  "default_config =
    \<lparr>enabled = True,
     provider = ''local'',
     formats = Some [''hls''],
     qualities = Some [''720p'', ''480p'', ''360p''],
     storage = Some \<lparr>videosPath = ''./uploads/videos'', chunksPath = ''./uploads/chunks''\<rparr>,
     transcoding = Some \<lparr>transcoding_enabled = True, concurrent = 2\<rparr>\<rparr>"

definition example_request :: "string \<Rightarrow> upload_request" where
  "example_request name =
    \<lparr>req_file = Some \<lparr>originalname = name, file_filename = ''1-'' @ name, file_size = 1000\<rparr>,
     body_title = None, body_description = None, req_user_id = None\<rparr>"

definition example_burst :: "event list" where
  "example_burst =
    [Upload (example_request ''a.mp4'') ''v1'' 1,
     Upload (example_request ''b.mp4'') ''v2'' 2,
     Upload (example_request ''c.mp4'') ''v3'' 3]"

definition example_ready_run :: "event list" where
  "example_ready_run =
    [Upload (example_request ''a.mp4'') ''v1'' 1,
     Settle 0 (Fulfilled None) 2,
     Settle 0 (Fulfilled None) 3,
     Settle 0 (Fulfilled (Some 10)) 4,
     Settle 0 (Fulfilled None) 5]"

definition thumbnail_failing_engine :: engine where
  "thumbnail_failing_engine =
    \<lparr>on_ensureDir = Fulfilled None, on_thumbnail = Rejected,
     on_metadata = Fulfilled (Some 10), on_hls = Fulfilled None\<rparr>"

definition succeeding_engine :: engine where
  "succeeding_engine =
    \<lparr>on_ensureDir = Fulfilled None, on_thumbnail = Fulfilled None,
     on_metadata = Fulfilled (Some 10), on_hls = Fulfilled None\<rparr>"

definition example_fs :: file_system where
  "example_fs =
    \<lparr>cwd = ''/srv/app'',
     nodes = map_of
       [(''/srv'', Directory),
        (''/srv/app'', Directory),
        (''/srv/app/uploads'', Directory),
        (''/srv/app/uploads/videos'', Directory),
        (''/srv/app/uploads/chunks'', Directory),
        (''/srv/app/uploads/chunks/v1'', Directory),
        (''/srv/app/uploads/videos/1-a.mp4'', File ''ORIGINAL-A''),
        (''/srv/app/uploads/videos/1-b.mp4'', File ''ORIGINAL-B''),
        (''/srv/app/uploads/chunks/v1/playlist.m3u8'', File ''MASTER-V1''),
        (''/srv/app/uploads/chunks/v1/segment_000.ts'', File ''SEGMENT-V1'')]\<rparr>"

definition example_two_uploads :: "event list" where
  "example_two_uploads =
    [Upload (example_request ''a.mp4'') ''v1'' 1,
     Upload (example_request ''b.mp4'') ''v2'' 2]"

definition example_delete_run :: "event list" where
  "example_delete_run =
    [Upload (example_request ''a.mp4'') ''v1'' 1,
     Upload (example_request ''b.mp4'') ''v2'' 2,
     Delete ''v1'',
     Settle 0 Rejected 3]"

definition no_query :: list_query where
  "no_query = \<lparr>query_userId = None, query_status = None, query_page = None, query_limit = None\<rparr>"

definition example_query :: list_query where
  "example_query =
    \<lparr>query_userId = Some ''anonymous'', query_status = Some ''processing'',
     query_page = Some 2, query_limit = Some 1\<rparr>"

section \<open>Well-formed states\<close>

text \<open>
  What every run of the service maintains: a record has streaming URLs exactly when it is
  ready; the \<open>Map\<close> and the jobs refer to allocated records; the record of a job is
  in status processing, and no two jobs work on the same record; nothing is ever put
  into \<open>processingQueue\<close>.
\<close>

definition manifest_iff_ready :: "video \<Rightarrow> bool" where
  "manifest_iff_ready v = ((streamingUrls v \<noteq> None) = (status v = Ready))"

definition wf_state :: "service_state \<Rightarrow> bool" where
  "wf_state s =
    ((\<forall>v \<in> set (heap s). manifest_iff_ready v)
     \<and> (\<forall>(k, r) \<in> set (videos s). r < length (heap s))
     \<and> (\<forall>j \<in> set (jobs s). job_video j < length (heap s) \<and> status (heap s ! job_video j) = Processing)
     \<and> distinct (map job_video (jobs s))
     \<and> processingQueue s = [])"

text \<open>
  What a run without deletions maintains: the keys of the \<open>Map\<close>, with the creation
  times of their records, are the accepted uploads in their order; a key is the id of its
  record; the \<open>Map\<close> has the record of every job under the id of the job.
\<close>

definition in_upload_order :: "service_state \<Rightarrow> (string \<times> nat) list \<Rightarrow> bool" where
  "in_upload_order s us =
    (map (\<lambda>(k, r). (k, createdAt (heap s ! r))) (videos s) = us
     \<and> (\<forall>(k, r) \<in> set (videos s). r < length (heap s) \<and> video_id (heap s ! r) = k)
     \<and> (\<forall>j \<in> set (jobs s). map_of (videos s) (job_videoId j) = Some (job_video j)))"

section \<open>The tier tables\<close>

lemma map_of_resolutions_other:
  "q \<noteq> ''240p'' \<Longrightarrow> q \<noteq> ''360p'' \<Longrightarrow> q \<noteq> ''480p'' \<Longrightarrow> q \<noteq> ''720p'' \<Longrightarrow> q \<noteq> ''1080p''
    \<Longrightarrow> map_of resolutions q = None"
  by (simp add: resolutions_def)

lemma map_of_bitrates_other:
  "q \<noteq> ''240p'' \<Longrightarrow> q \<noteq> ''360p'' \<Longrightarrow> q \<noteq> ''480p'' \<Longrightarrow> q \<noteq> ''720p'' \<Longrightarrow> q \<noteq> ''1080p''
    \<Longrightarrow> map_of bitrates q = None"
  by (simp add: bitrates_def)

lemma map_of_bandwidths_other:
  "q \<noteq> ''240p'' \<Longrightarrow> q \<noteq> ''360p'' \<Longrightarrow> q \<noteq> ''480p'' \<Longrightarrow> q \<noteq> ''720p'' \<Longrightarrow> q \<noteq> ''1080p''
    \<Longrightarrow> map_of bandwidths q = None"
  by (simp add: bandwidths_def)

lemma getResolution_table:
  "getResolution ''240p'' = JString ''426x240''" "getResolution ''360p'' = JString ''640x360''"
  "getResolution ''480p'' = JString ''854x480''" "getResolution ''720p'' = JString ''1280x720''"
  "getResolution ''1080p'' = JString ''1920x1080''"
  by (simp_all add: getResolution_def resolutions_def property_get_def js_or_def truthy_value_def)

lemma getBitrate_table:
  "getBitrate ''240p'' = JString ''400k''" "getBitrate ''360p'' = JString ''800k''"
  "getBitrate ''480p'' = JString ''1200k''" "getBitrate ''720p'' = JString ''2500k''"
  "getBitrate ''1080p'' = JString ''5000k''"
  by (simp_all add: getBitrate_def bitrates_def property_get_def js_or_def truthy_value_def)

lemma getBandwidth_table:
  "getBandwidth ''240p'' = JNumber 500000" "getBandwidth ''360p'' = JNumber 1000000"
  "getBandwidth ''480p'' = JNumber 1500000" "getBandwidth ''720p'' = JNumber 3000000"
  "getBandwidth ''1080p'' = JNumber 6000000"
  by (simp_all add: getBandwidth_def bandwidths_def property_get_def js_or_def truthy_value_def)

lemma inherited_not_tier:
  assumes "q \<in> set object_prototype_names"
  shows "q \<noteq> ''240p''" "q \<noteq> ''360p''" "q \<noteq> ''480p''" "q \<noteq> ''720p''" "q \<noteq> ''1080p''"
  using assms by (auto simp: object_prototype_names_def)

text \<open>A tier name outside the tables that no object inherits gets the defaults.\<close>

lemma tier_other:
  assumes "q \<notin> set [''240p'', ''360p'', ''480p'', ''720p'', ''1080p'']"
    and "q \<notin> set object_prototype_names"
  shows "getResolution q = JString ''640x360''" "getBitrate q = JString ''800k''"
    "getBandwidth q = JNumber 1000000"
  using assms
  by (simp_all add: getResolution_def getBitrate_def getBandwidth_def map_of_resolutions_other
      map_of_bitrates_other map_of_bandwidths_other property_get_def js_or_def)

text \<open>The name of an inherited member gets that member from each of the three tables.\<close>

lemma tier_inherited:
  assumes "q \<in> set object_prototype_names"
  shows "getResolution q = JInherited q" "getBitrate q = JInherited q" "getBandwidth q = JInherited q"
  using assms inherited_not_tier[OF assms]
  by (simp_all add: getResolution_def getBitrate_def getBandwidth_def map_of_resolutions_other
      map_of_bitrates_other map_of_bandwidths_other property_get_def js_or_def truthy_value_def)

lemma tier_cases:
  obtains "q = ''240p''" | "q = ''360p''" | "q = ''480p''" | "q = ''720p''" | "q = ''1080p''"
    | "q \<notin> set [''240p'', ''360p'', ''480p'', ''720p'', ''1080p'']"
  by auto

lemma bitrate_bps_table:
  "bitrate_bps ''400k'' = Some 400000" "bitrate_bps ''800k'' = Some 800000"
  "bitrate_bps ''1200k'' = Some 1200000" "bitrate_bps ''2500k'' = Some 2500000"
  "bitrate_bps ''5000k'' = Some 5000000"
  by (simp_all add: bitrate_bps_def digit_value_def)

lemma string_of_nat_bandwidths:
  "string_of_nat 3000000 = ''3000000''" "string_of_nat 1500000 = ''1500000''"
  "string_of_nat 1000000 = ''1000000''"
  by (simp_all add: string_of_nat.simps digit_char_def)

lemma foldl_masterPlaylist_append:
  "foldl masterPlaylist_append acc qs =
    acc @ concat (map (\<lambda>q. ''#EXT-X-STREAM-INF:BANDWIDTH='' @ js_to_string (getBandwidth q)
            @ '',RESOLUTION='' @ js_to_string (getResolution q) @ newline
            @ q @ ''.m3u8'' @ newline @ newline) qs)"
  by (induction qs arbitrary: acc) (simp_all add: masterPlaylist_append_def Let_def)

lemma toString_inherited: "''toString'' \<in> set object_prototype_names"
  by (simp add: object_prototype_names_def)

lemma not_inherited_4K: "''4K'' \<notin> set object_prototype_names"
  by (simp add: object_prototype_names_def)

text \<open>
  C9, as amended. The table of encode parameters has five entries, the four of the claim
  and \<open>240p\<close> (426x240 at 400k); every tier name outside these five that is not the
  name of a member inherited from \<open>Object.prototype\<close> gets the resolution 640x360 and
  the bit rate 800k.
\<close>

theorem tier_parameters:
  "getResolution ''240p'' = JString ''426x240'' \<and> getBitrate ''240p'' = JString ''400k''
   \<and> getResolution ''360p'' = JString ''640x360'' \<and> getBitrate ''360p'' = JString ''800k''
   \<and> getResolution ''480p'' = JString ''854x480'' \<and> getBitrate ''480p'' = JString ''1200k''
   \<and> getResolution ''720p'' = JString ''1280x720'' \<and> getBitrate ''720p'' = JString ''2500k''
   \<and> getResolution ''1080p'' = JString ''1920x1080'' \<and> getBitrate ''1080p'' = JString ''5000k''
   \<and> (\<forall>q. q \<notin> set [''240p'', ''360p'', ''480p'', ''720p'', ''1080p'']
            \<and> q \<notin> set object_prototype_names
          \<longrightarrow> getResolution q = JString ''640x360'' \<and> getBitrate q = JString ''800k'')"
  using tier_other(1,2) by (simp only: getResolution_table getBitrate_table) blast

theorem tier_parameters_witness:
  "''4K'' \<notin> set [''240p'', ''360p'', ''480p'', ''720p'', ''1080p'']
   \<and> ''4K'' \<notin> set object_prototype_names
   \<and> getResolution ''4K'' = JString ''640x360'' \<and> getBitrate ''4K'' = JString ''800k''
   \<and> getResolution ''240p'' = JString ''426x240'' \<and> getBitrate ''240p'' = JString ''400k''"
proof -
  have h: "''4K'' \<notin> set [''240p'', ''360p'', ''480p'', ''720p'', ''1080p'']" by simp
  from tier_parameters
  have "getResolution ''4K'' = JString ''640x360'' \<and> getBitrate ''4K'' = JString ''800k''"
    and "getResolution ''240p'' = JString ''426x240'' \<and> getBitrate ''240p'' = JString ''400k''"
    using h not_inherited_4K by blast+
  with h not_inherited_4K show ?thesis by blast
qed

text \<open>
  C9 as stated fails: \<open>240p\<close>, \<open>4K\<close> and \<open>toString\<close> are all outside the claim's
  table of four tiers, and they do not get the same parameters: \<open>240p\<close> has a row of
  its own, and \<open>toString\<close> gets the inherited function. There is no single default
  for the names outside that table.
\<close>

theorem tier_default_counterexample:
  "''240p'' \<notin> set [''360p'', ''480p'', ''720p'', ''1080p'']
   \<and> ''4K'' \<notin> set [''360p'', ''480p'', ''720p'', ''1080p'']
   \<and> ''toString'' \<notin> set [''360p'', ''480p'', ''720p'', ''1080p'']
   \<and> getResolution ''240p'' \<noteq> getResolution ''4K''
   \<and> getBitrate ''240p'' \<noteq> getBitrate ''4K''
   \<and> getResolution ''toString'' \<noteq> getResolution ''4K''
   \<and> getBitrate ''toString'' \<noteq> getBitrate ''4K''"
proof -
  have 4: "''4K'' \<notin> set [''240p'', ''360p'', ''480p'', ''720p'', ''1080p'']" by simp
  show ?thesis
    by (simp add: getResolution_table getBitrate_table tier_other[OF 4 not_inherited_4K]
        tier_inherited[OF toString_inherited])
qed

text \<open>
  C10, as amended. For every tier name \<open>q\<close> that is not the name of a member inherited
  from \<open>Object.prototype\<close>, the master playlist entry of \<open>q\<close> carries as
  \<open>BANDWIDTH\<close> the value of \<open>getBandwidth\<close>, which is read from a table of its own
  (240p: 500000, 360p: 1000000, 480p: 1500000, 720p: 3000000, 1080p: 6000000, any other
  name: 1000000), and this value differs from the target bit rate, in bits per second,
  with which the rendition of \<open>q\<close> is encoded.
\<close>

theorem bandwidth_table_differs_from_bitrate:
  assumes "q \<notin> set object_prototype_names"
  shows "generateMasterPlaylist [q] =
      masterPlaylist_header @ ''#EXT-X-STREAM-INF:BANDWIDTH='' @ js_to_string (getBandwidth q)
        @ '',RESOLUTION='' @ js_to_string (getResolution q) @ newline @ q @ ''.m3u8'' @ newline @ newline
   \<and> getBandwidth q =
        JNumber (if q = ''240p'' then 500000 else if q = ''360p'' then 1000000
         else if q = ''480p'' then 1500000 else if q = ''720p'' then 3000000
         else if q = ''1080p'' then 6000000 else 1000000)
   \<and> (\<exists>text b. getBitrate q = JString text \<and> bitrate_bps text = Some b
                 \<and> getBandwidth q \<noteq> JNumber b)"
proof -
  have 1: "generateMasterPlaylist [q] =
      masterPlaylist_header @ ''#EXT-X-STREAM-INF:BANDWIDTH='' @ js_to_string (getBandwidth q)
        @ '',RESOLUTION='' @ js_to_string (getResolution q) @ newline @ q @ ''.m3u8'' @ newline @ newline"
    by (simp add: generateMasterPlaylist_def masterPlaylist_append_def Let_def)
  have 2: "getBandwidth q =
        JNumber (if q = ''240p'' then 500000 else if q = ''360p'' then 1000000
         else if q = ''480p'' then 1500000 else if q = ''720p'' then 3000000
         else if q = ''1080p'' then 6000000 else 1000000)"
  proof (cases q rule: tier_cases)
    case 6
    show ?thesis using tier_other(3)[OF 6 assms] 6 by simp
  qed (simp_all add: getBandwidth_table)
  have 3: "\<exists>text b. getBitrate q = JString text \<and> bitrate_bps text = Some b
                 \<and> getBandwidth q \<noteq> JNumber b"
  proof (cases q rule: tier_cases)
    case 6
    show ?thesis using tier_other(2,3)[OF 6 assms] by (simp add: bitrate_bps_table)
  qed (simp_all only: getBandwidth_table getBitrate_table, simp_all add: bitrate_bps_table)
  from 1 2 3 show ?thesis by (intro conjI)
qed

theorem bandwidth_table_differs_from_bitrate_witness:
  "''4K'' \<notin> set object_prototype_names
   \<and> getBandwidth ''4K'' = JNumber 1000000
   \<and> getBitrate ''4K'' = JString ''800k''
   \<and> bitrate_bps ''800k'' = Some 800000"
proof -
  have 4: "''4K'' \<notin> set [''240p'', ''360p'', ''480p'', ''720p'', ''1080p'']" by simp
  from bandwidth_table_differs_from_bitrate[OF not_inherited_4K]
  have "getBandwidth ''4K'' = JNumber 1000000" by simp
  then show ?thesis
    using not_inherited_4K tier_other(2)[OF 4 not_inherited_4K] by (simp add: bitrate_bps_table)
qed

text \<open>
  C10 as stated fails: for the tier name \<open>toString\<close>, which has no row in the table,
  the \<open>BANDWIDTH\<close> written into the playlist is not 1000000 but the text of the
  inherited function, and it is the same value as the encode bit rate of that tier.
\<close>

theorem bandwidth_inherited_counterexample:
  "''toString'' \<notin> set [''240p'', ''360p'', ''480p'', ''720p'', ''1080p'']
   \<and> getBandwidth ''toString'' \<noteq> JNumber 1000000
   \<and> getBandwidth ''toString'' = getBitrate ''toString''
   \<and> generateMasterPlaylist [''toString''] =
       masterPlaylist_header
       @ ''#EXT-X-STREAM-INF:BANDWIDTH=function toString() { [native code] }''
       @ '',RESOLUTION=function toString() { [native code] }'' @ newline
       @ ''toString.m3u8'' @ newline @ newline"
  by (simp add: generateMasterPlaylist_def masterPlaylist_append_def Let_def
      tier_inherited[OF toString_inherited] js_to_string_def inherited_text_def)

text \<open>
  C6, as amended. For every configured list of quality tiers the master playlist lists
  the renditions in the configured order, which is also the order in which
  \<open>generateHLS\<close> adds the renditions to the encode command; each entry carries its
  \<open>BANDWIDTH\<close> and \<open>RESOLUTION\<close>.
\<close>

theorem masterPlaylist_configured_order:
  "generateMasterPlaylist qs =
     masterPlaylist_header
     @ concat (map (\<lambda>q. ''#EXT-X-STREAM-INF:BANDWIDTH='' @ js_to_string (getBandwidth q)
                         @ '',RESOLUTION='' @ js_to_string (getResolution q) @ newline
                         @ q @ ''.m3u8'' @ newline @ newline) qs)
   \<and> map fst (generateHLS_outputs outputDir qs) =
       map (\<lambda>q. path_join [outputDir, q @ ''.m3u8'']) qs @ [path_join [outputDir, ''playlist.m3u8'']]"
  by (simp add: generateMasterPlaylist_def foldl_masterPlaylist_append generateHLS_outputs_def comp_def)

text \<open>
  C6 as stated fails: with the tiers of the default configuration (720p, 480p, 360p) the
  playlist lists the bandwidths 3000000, 1500000, 1000000, the highest first.
\<close>

theorem masterPlaylist_order_counterexample:
  "generateMasterPlaylist (config_qualities default_config) =
     ''#EXTM3U'' @ newline @ ''#EXT-X-VERSION:3'' @ newline @ newline
     @ ''#EXT-X-STREAM-INF:BANDWIDTH=3000000,RESOLUTION=1280x720'' @ newline @ ''720p.m3u8'' @ newline @ newline
     @ ''#EXT-X-STREAM-INF:BANDWIDTH=1500000,RESOLUTION=854x480'' @ newline @ ''480p.m3u8'' @ newline @ newline
     @ ''#EXT-X-STREAM-INF:BANDWIDTH=1000000,RESOLUTION=640x360'' @ newline @ ''360p.m3u8'' @ newline @ newline
   \<and> map getBandwidth (config_qualities default_config) = map JNumber [3000000, 1500000, 1000000]
   \<and> \<not> sorted [3000000, 1500000, 1000000 :: nat]"
proof -
  have qs: "config_qualities default_config = [''720p'', ''480p'', ''360p'']"
    by (simp add: config_qualities_def default_config_def)
  show ?thesis
    unfolding qs generateMasterPlaylist_def foldl_masterPlaylist_append
    by (simp add: masterPlaylist_header_def getBandwidth_table getResolution_table
        js_to_string_def string_of_nat_bandwidths newline_def)
qed

section \<open>The invariant of the service\<close>

lemma set_AList_update: "set (AList.update k v al) \<subseteq> insert (k, v) (set al)"
  by (induction al) auto

lemma set_AList_delete: "set (AList.delete k al) \<subseteq> set al"
  by (induction al) auto

lemma modify_video_simps [simp]:
  "heap (modify_video r f s) = (heap s)[r := f (heap s ! r)]"
  "videos (modify_video r f s) = videos s"
  "jobs (modify_video r f s) = jobs s"
  "processingQueue (modify_video r f s) = processingQueue s"
  by (simp_all add: modify_video_def)

lemma videos_set_simps [simp]:
  "heap (videos_set k r s) = heap s"
  "videos (videos_set k r s) = AList.update k r (videos s)"
  "jobs (videos_set k r s) = jobs s"
  "processingQueue (videos_set k r s) = processingQueue s"
  by (simp_all add: videos_set_def)

lemma suspend_simps [simp]:
  "heap (suspend j st s) = heap s"
  "videos (suspend j st s) = videos s"
  "jobs (suspend j st s) = jobs s @ [j\<lparr>job_stage := st\<rparr>]"
  "processingQueue (suspend j st s) = processingQueue s"
  by (simp_all add: suspend_def)

lemma wf_initial: "wf_state initial_state"
  by (simp add: wf_state_def initial_state_def)

lemma wf_videos_set:
  "wf_state s \<Longrightarrow> r < length (heap s) \<Longrightarrow> wf_state (videos_set k r s)"
  using set_AList_update[of k r "videos s"] by (fastforce simp: wf_state_def)

lemma wf_modify_video:
  assumes "wf_state s" and "manifest_iff_ready (f (heap s ! r))"
    and "\<forall>j \<in> set (jobs s). job_video j = r \<longrightarrow> status (f (heap s ! r)) = Processing"
  shows "wf_state (modify_video r f s)"
proof -
  have "set ((heap s)[r := f (heap s ! r)]) \<subseteq> insert (f (heap s ! r)) (set (heap s))"
    by (rule set_update_subset_insert)
  moreover have "status ((heap s)[r := f (heap s ! r)] ! job_video j) = Processing"
    if "j \<in> set (jobs s)" for j
  proof (cases "job_video j = r")
    case True
    with that assms show ?thesis by (auto simp: wf_state_def)
  next
    case False
    with that assms show ?thesis by (auto simp: wf_state_def)
  qed
  ultimately show ?thesis using assms
    by (auto simp: wf_state_def)
qed

lemma wf_suspend:
  assumes "wf_state s" and "job_video j < length (heap s)"
    and "status (heap s ! job_video j) = Processing"
    and "\<forall>j' \<in> set (jobs s). job_video j' \<noteq> job_video j"
  shows "wf_state (suspend j st s)"
  using assms by (auto simp: wf_state_def)

lemma wf_remove_jobs:
  "wf_state s \<Longrightarrow> wf_state (s\<lparr>jobs := filter P (jobs s)\<rparr>)"
  by (auto simp: wf_state_def distinct_map_filter)

lemma find_job:
  "distinct (map job_video js) \<Longrightarrow> j \<in> set js \<Longrightarrow> find (\<lambda>j'. job_video j' = job_video j) js = Some j"
  by (induction js) auto

lemma find_job_SomeD:
  "find (\<lambda>j'. job_video j' = r) js = Some j \<Longrightarrow> j \<in> set js \<and> job_video j = r"
  by (induction js) (auto split: if_splits)

lemma wf_job:
  "wf_state s \<Longrightarrow> j \<in> set (jobs s) \<Longrightarrow>
    job_video j < length (heap s) \<and> status (heap s ! job_video j) = Processing
    \<and> streamingUrls (heap s ! job_video j) = None"
  by (auto simp: wf_state_def manifest_iff_ready_def dest!: bspec[where x="heap s ! job_video j"])


lemma wf_catch:
  assumes "wf_state s" and "job_video j < length (heap s)"
    and "streamingUrls (heap s ! job_video j) = None"
    and "\<forall>j' \<in> set (jobs s). job_video j' \<noteq> job_video j"
  shows "wf_state (processVideo_catch s j now)"
  unfolding processVideo_catch_def using assms
  by (intro wf_videos_set wf_modify_video) (auto simp: manifest_iff_ready_def)

lemma wf_finish:
  assumes "wf_state s" and "job_video j < length (heap s)"
    and "\<forall>j' \<in> set (jobs s). job_video j' \<noteq> job_video j"
  shows "wf_state (processVideo_finish s j now)"
  unfolding processVideo_finish_def using assms
  by (intro wf_videos_set wf_modify_video) (auto simp: manifest_iff_ready_def)



lemma resume_simps:
  "processVideo_resume config s j Rejected now = processVideo_catch s j now"
  "job_stage j = AwaitEnsureDir \<Longrightarrow>
     processVideo_resume config s j (Fulfilled d) now = suspend j AwaitThumbnail s"
  "job_stage j = AwaitThumbnail \<Longrightarrow>
     processVideo_resume config s j (Fulfilled d) now = suspend j AwaitMetadata s"
  "job_stage j = AwaitMetadata \<Longrightarrow> formats_include_hls config \<Longrightarrow>
     processVideo_resume config s j (Fulfilled d) now =
       suspend j AwaitHLS (modify_video (job_video j) (\<lambda>v. v\<lparr>duration := d\<rparr>) s)"
  "job_stage j = AwaitMetadata \<Longrightarrow> \<not> formats_include_hls config \<Longrightarrow>
     processVideo_resume config s j (Fulfilled d) now =
       processVideo_finish (modify_video (job_video j) (\<lambda>v. v\<lparr>duration := d\<rparr>) s) j now"
  "job_stage j = AwaitHLS \<Longrightarrow>
     processVideo_resume config s j (Fulfilled d) now = processVideo_finish s j now"
  by (simp_all add: processVideo_resume_def)

lemma wf_resume:
  assumes wf: "wf_state s" and j: "j \<in> set (jobs s)"
  shows "wf_state (processVideo_resume config
            (s\<lparr>jobs := filter (\<lambda>j'. job_video j' \<noteq> job_video j) (jobs s)\<rparr>) j out now)"
proof -
  let ?s = "s\<lparr>jobs := filter (\<lambda>j'. job_video j' \<noteq> job_video j) (jobs s)\<rparr>"
  have wf': "wf_state ?s" using wf by (rule wf_remove_jobs)
  have jp: "job_video j < length (heap ?s)" "status (heap ?s ! job_video j) = Processing"
    "streamingUrls (heap ?s ! job_video j) = None"
    using wf_job[OF wf j] by simp_all
  have nojob: "\<forall>j' \<in> set (jobs ?s). job_video j' \<noteq> job_video j" by simp
  let ?d = "\<lambda>d. modify_video (job_video j) (\<lambda>v. v\<lparr>duration := d\<rparr>) ?s"
  have wfd: "wf_state (?d d)" for d
  proof (rule wf_modify_video[OF wf'])
    show "manifest_iff_ready ((heap ?s ! job_video j)\<lparr>duration := d\<rparr>)"
      using jp by (simp add: manifest_iff_ready_def)
    show "\<forall>j'\<in>set (jobs ?s). job_video j' = job_video j \<longrightarrow> status ((heap ?s ! job_video j)\<lparr>duration := d\<rparr>) = Processing"
      by simp
  qed
  have jpd: "job_video j < length (heap (?d d))" "status (heap (?d d) ! job_video j) = Processing"
    "\<forall>j' \<in> set (jobs (?d d)). job_video j' \<noteq> job_video j" for d
    using jp by simp_all
  show ?thesis
  proof (cases out)
    case Rejected
    show ?thesis unfolding Rejected resume_simps by (rule wf_catch[OF wf' jp(1) jp(3) nojob])
  next
    case (Fulfilled d)
    show ?thesis
    proof (cases "job_stage j")
      case AwaitEnsureDir
      show ?thesis unfolding Fulfilled resume_simps(2)[OF AwaitEnsureDir]
        by (rule wf_suspend[OF wf' jp(1) jp(2) nojob])
    next
      case AwaitThumbnail
      show ?thesis unfolding Fulfilled resume_simps(3)[OF AwaitThumbnail]
        by (rule wf_suspend[OF wf' jp(1) jp(2) nojob])
    next
      case AwaitMetadata
      show ?thesis
      proof (cases "formats_include_hls config")
        case True
        show ?thesis unfolding Fulfilled resume_simps(4)[OF AwaitMetadata True]
          by (rule wf_suspend[OF wfd jpd(1) jpd(2) jpd(3)])
      next
        case False
        show ?thesis unfolding Fulfilled resume_simps(5)[OF AwaitMetadata False]
          by (rule wf_finish[OF wfd jpd(1) jpd(3)])
      qed
    next
      case AwaitHLS
      show ?thesis unfolding Fulfilled resume_simps(6)[OF AwaitHLS]
        by (rule wf_finish[OF wf' jp(1) nojob])
    qed
  qed
qed

lemma wf_upload: 
  assumes wf: "wf_state s"
  shows "wf_state (fst (upload_handler s req uuid now))"
proof (cases "req_file req")
  case None
  then show ?thesis using wf by (simp add: upload_handler_def)
next
  case (Some f)
  let ?r = "length (heap s)"
  let ?s0 = "s\<lparr>heap := heap s @ [new_video req f uuid now]\<rparr>"
  let ?s1 = "videos_set uuid ?r ?s0"
  let ?s2 = "modify_video ?r (\<lambda>v. v\<lparr>status := Processing, updatedAt := now\<rparr>) ?s1"
  have wf0: "wf_state ?s0"
    using wf by (auto simp: wf_state_def nth_append manifest_iff_ready_def new_video_def)
  have wf1: "wf_state ?s1" using wf0 by (intro wf_videos_set) simp_all
  have nojob: "\<forall>j \<in> set (jobs s). job_video j \<noteq> ?r" using wf by (auto simp: wf_state_def)
  have wf2: "wf_state ?s2"
    using wf1 nojob by (intro wf_modify_video) (auto simp: manifest_iff_ready_def new_video_def)
  have wf3: "wf_state (videos_set uuid ?r ?s2)" using wf2 by (intro wf_videos_set) simp_all
  have lookup: "map_of (videos ?s1) uuid = Some ?r" by (simp add: update_conv')
  have "fst (upload_handler s req uuid now) =
      suspend \<lparr>job_video = ?r, job_videoId = uuid, job_stage = AwaitEnsureDir\<rparr> AwaitEnsureDir
        (videos_set uuid ?r ?s2)"
    using Some lookup by (simp add: upload_handler_def Let_def processVideo_start_def)
  moreover have "wf_state \<dots>"
    using wf3 nojob by (intro wf_suspend) simp_all
  ultimately show ?thesis by simp
qed

lemma wf_step: 
  assumes wf: "wf_state s"
  shows "wf_state (step config s e)"
proof (cases e)
  case (Upload req uuid now)
  then show ?thesis using wf_upload[OF wf] by (simp add: step_def)
next
  case (Settle r out now)
  show ?thesis
  proof (cases "find (\<lambda>j. job_video j = r) (jobs s)")
    case None
    then show ?thesis using wf Settle by (simp add: step_def)
  next
    case (Some j)
    then have "j \<in> set (jobs s)" "job_video j = r" using find_job_SomeD by blast+
    then show ?thesis using wf_resume[OF wf, of j config out now] Settle Some
      by (simp add: step_def)
  qed
next
  case (Delete ident)
  then show ?thesis using wf set_AList_delete[of ident "videos s"]
    by (fastforce simp: step_def wf_state_def)
qed

lemma wf_foldl: "wf_state s \<Longrightarrow> wf_state (foldl (step config) s evs)"
  by (induction evs arbitrary: s) (simp_all add: wf_step)

lemma wf_run: "wf_state (run config evs)"
  unfolding run_def by (rule wf_foldl[OF wf_initial])

section \<open>Uploads and processing\<close>


lemma step_settle:
  "find (\<lambda>j. job_video j = r) (jobs s) = Some j \<Longrightarrow>
    step config s (Settle r out now) =
      processVideo_resume config (s\<lparr>jobs := filter (\<lambda>j'. job_video j' \<noteq> r) (jobs s)\<rparr>) j out now"
  by (simp add: step_def)

lemma catch_record:
  "job_video j < length (heap s) \<Longrightarrow>
    heap (processVideo_catch s j now) ! job_video j = (heap s ! job_video j)\<lparr>status := Error, updatedAt := now\<rparr>"
  "jobs (processVideo_catch s j now) = jobs s"
  "map_of (videos (processVideo_catch s j now)) (job_videoId j) = Some (job_video j)"
  by (simp_all add: processVideo_catch_def update_conv')

lemma finish_record:
  "job_video j < length (heap s) \<Longrightarrow>
    heap (processVideo_finish s j now) ! job_video j =
      (heap s ! job_video j)\<lparr>status := Ready,
         streamingUrls := Some \<lparr>hls = Some (''/streaming/stream/'' @ job_videoId j @ ''/playlist.m3u8''), dash = None\<rparr>,
         thumbnailUrl := Some (''/streaming/thumbnails/'' @ job_videoId j),
         updatedAt := now\<rparr>"
  "jobs (processVideo_finish s j now) = jobs s"
  by (simp_all add: processVideo_finish_def)

text \<open>
  C1. In every state that a run of the service reaches (between any two of its atomic
  steps), every record in the registry has streaming URLs (the manifest reference) set
  if and only if its status is ready. And whenever the operation that a running job
  waits for fails, at whichever of its steps, the job ends and leaves its record in
  the registry with status error and no streaming URLs.
\<close>

theorem manifest_iff_ready_invariant:
  "(\<forall>(k, r) \<in> set (videos (run config evs)).
       (streamingUrls (heap (run config evs) ! r) \<noteq> None) = (status (heap (run config evs) ! r) = Ready))
   \<and> (\<forall>j \<in> set (jobs (run config evs)).
        (let s' = step config (run config evs) (Settle (job_video j) Rejected now)
         in status (heap s' ! job_video j) = Error
          \<and> streamingUrls (heap s' ! job_video j) = None
          \<and> map_of (videos s') (job_videoId j) = Some (job_video j)
          \<and> find (\<lambda>j'. job_video j' = job_video j) (jobs s') = None))"
proof (intro conjI ballI)
  let ?s = "run config evs"
  have wf: "wf_state ?s" by (rule wf_run)
  fix x assume x: "x \<in> set (videos ?s)"
  obtain k r where kr: "x = (k, r)" by (cases x)
  with x wf have "r < length (heap ?s)" by (auto simp: wf_state_def)
  then have "heap ?s ! r \<in> set (heap ?s)" by simp
  with wf have "manifest_iff_ready (heap ?s ! r)" by (simp add: wf_state_def)
  then show "case x of (k, r) \<Rightarrow>
      (streamingUrls (heap ?s ! r) \<noteq> None) = (status (heap ?s ! r) = Ready)"
    using kr by (simp add: manifest_iff_ready_def)
next
  let ?s = "run config evs"
  have wf: "wf_state ?s" by (rule wf_run)
  fix j assume j: "j \<in> set (jobs ?s)"
  let ?r = "job_video j"
  let ?t = "?s\<lparr>jobs := filter (\<lambda>j'. job_video j' \<noteq> ?r) (jobs ?s)\<rparr>"
  from wf have "distinct (map job_video (jobs ?s))" by (simp add: wf_state_def)
  then have "find (\<lambda>j'. job_video j' = ?r) (jobs ?s) = Some j" using j by (rule find_job)
  then have step: "step config ?s (Settle ?r Rejected now) = processVideo_catch ?t j now"
    by (simp add: step_settle resume_simps)
  have jp: "?r < length (heap ?t)" "streamingUrls (heap ?t ! ?r) = None"
    using wf_job[OF wf j] by simp_all
  have "find (\<lambda>j'. job_video j' = ?r) (jobs ?t) = None"
    by (simp add: find_None_iff)
  then show "let s' = step config ?s (Settle ?r Rejected now)
     in status (heap s' ! ?r) = Error \<and> streamingUrls (heap s' ! ?r) = None
      \<and> map_of (videos s') (job_videoId j) = Some ?r
      \<and> find (\<lambda>j'. job_video j' = ?r) (jobs s') = None"
    unfolding step Let_def using jp by (simp add: catch_record)
qed

text \<open>
  C7, on the code. For an accepted upload the record is created with status uploading,
  but \<open>processVideo\<close> has already set the status of the same object to processing
  when the handler builds its response: the summary returned to the caller, and the
  record under the new id in the registry, report processing.
\<close>

theorem upload_reports_processing:
  assumes "req_file req = Some f"
  shows "snd (upload_handler s req uuid now) =
           UploadCreated \<lparr>summary_id = uuid,
                          summary_title = or_string (body_title req) (originalname f),
                          summary_status = Processing,
                          summary_originalUrl = ''/streaming/videos/'' @ file_filename f\<rparr>
       \<and> map_of (videos (fst (upload_handler s req uuid now))) uuid = Some (length (heap s))
       \<and> status (heap (fst (upload_handler s req uuid now)) ! length (heap s)) = Processing"
proof -
  let ?r = "length (heap s)"
  let ?s1 = "videos_set uuid ?r (s\<lparr>heap := heap s @ [new_video req f uuid now]\<rparr>)"
  have lookup: "map_of (videos ?s1) uuid = Some ?r" by (simp add: update_conv')
  have start: "processVideo_start ?s1 uuid now =
      suspend \<lparr>job_video = ?r, job_videoId = uuid, job_stage = AwaitEnsureDir\<rparr> AwaitEnsureDir
        (videos_set uuid ?r (modify_video ?r (\<lambda>v. v\<lparr>status := Processing, updatedAt := now\<rparr>) ?s1))"
    using lookup by (simp add: processVideo_start_def)
  have rec: "heap (processVideo_start ?s1 uuid now) ! ?r
      = (new_video req f uuid now)\<lparr>status := Processing, updatedAt := now\<rparr>"
    unfolding start by simp
  have vs: "map_of (videos (processVideo_start ?s1 uuid now)) uuid = Some ?r"
    unfolding start by (simp add: update_conv')
  show ?thesis
    using assms rec vs by (simp add: upload_handler_def Let_def new_video_def)
qed


lemmas eval_defs = run_def step_def upload_handler_def processVideo_start_def processVideo_resume_def
  processVideo_catch_def processVideo_finish_def new_video_def initial_state_def example_request_def
  or_string_def Let_def formats_include_hls_def default_config_def update_conv'

lemma run1: "run default_config [Upload (example_request ''a.mp4'') ''v1'' 1] =
   \<lparr>heap = [\<lparr>video_id = ''v1'', title = ''a.mp4'', description = None, userId = ''anonymous'',
            filename = ''1-a.mp4'', originalUrl = ''/streaming/videos/1-a.mp4'', streamingUrls = None,
            thumbnailUrl = None, duration = None, video_size = 1000, status = Processing,
            createdAt = 1, updatedAt = 1\<rparr>],
     videos = [(''v1'', 0)], processingQueue = [],
     jobs = [\<lparr>job_video = 0, job_videoId = ''v1'', job_stage = AwaitEnsureDir\<rparr>]\<rparr>"
  by (simp add: eval_defs)

theorem upload_reports_processing_witness:
  "req_file (example_request ''a.mp4'') = Some \<lparr>originalname = ''a.mp4'', file_filename = ''1-a.mp4'', file_size = 1000\<rparr>
   \<and> snd (upload_handler initial_state (example_request ''a.mp4'') ''v1'' 1) =
       UploadCreated \<lparr>summary_id = ''v1'', summary_title = ''a.mp4'', summary_status = Processing,
                      summary_originalUrl = ''/streaming/videos/1-a.mp4''\<rparr>
   \<and> summary_status \<lparr>summary_id = ''v1'', summary_title = ''a.mp4'', summary_status = Processing,
                      summary_originalUrl = ''/streaming/videos/1-a.mp4''\<rparr> \<noteq> Uploading"
proof -
  have h: "req_file (example_request ''a.mp4'') = Some \<lparr>originalname = ''a.mp4'', file_filename = ''1-a.mp4'', file_size = 1000\<rparr>"
    by (simp add: example_request_def)
  show ?thesis
    using upload_reports_processing[OF h, of initial_state "''v1''" 1] h
    by (simp add: example_request_def or_string_def)
qed


lemma upload_state:
  assumes "req_file req = Some f"
  shows "fst (upload_handler s req uuid now) =
      suspend \<lparr>job_video = length (heap s), job_videoId = uuid, job_stage = AwaitEnsureDir\<rparr> AwaitEnsureDir
        (videos_set uuid (length (heap s))
          (modify_video (length (heap s)) (\<lambda>v. v\<lparr>status := Processing, updatedAt := now\<rparr>)
            (videos_set uuid (length (heap s)) (s\<lparr>heap := heap s @ [new_video req f uuid now]\<rparr>))))"
proof -
  let ?s1 = "videos_set uuid (length (heap s)) (s\<lparr>heap := heap s @ [new_video req f uuid now]\<rparr>)"
  have "map_of (videos ?s1) uuid = Some (length (heap s))" by (simp add: update_conv')
  then show ?thesis using assms by (simp add: upload_handler_def Let_def processVideo_start_def)
qed

lemma run_append: "run config (evs @ evs') = foldl (step config) (run config evs) evs'"
  by (simp add: run_def)

lemma jobs_after_burst:
  "\<forall>e \<in> set burst. accepted_upload e \<Longrightarrow>
    length (jobs (foldl (step config) s burst)) = length (jobs s) + length burst"
proof (induction burst arbitrary: s)
  case Nil
  then show ?case by simp
next
  case (Cons e burst)
  from Cons.prems obtain req uuid now f where e: "e = Upload req uuid now" "req_file req = Some f"
    by (cases e) (auto simp: accepted_upload_def)
  have "length (jobs (step config s e)) = Suc (length (jobs s))"
    by (simp add: e step_def upload_state[OF e(2)])
  with Cons show ?case by simp
qed

text \<open>
  C5, on the code. Every accepted upload starts its processing job at once: after a
  burst of accepted uploads there are as many more running jobs as the burst has uploads,
  whatever the configured limit \<open>transcoding.concurrent\<close>; each of them is the only
  job of its record; and \<open>processingQueue\<close> stays empty.
\<close>

theorem every_upload_starts_a_job:
  assumes "\<forall>e \<in> set burst. accepted_upload e"
  shows "length (jobs (run config (evs @ burst))) = length (jobs (run config evs)) + length burst
     \<and> (\<forall>j \<in> set (jobs (run config (evs @ burst))).
           status (heap (run config (evs @ burst)) ! job_video j) = Processing)
     \<and> distinct (map job_video (jobs (run config (evs @ burst))))
     \<and> processingQueue (run config (evs @ burst)) = []"
  using jobs_after_burst[OF assms] wf_run[of config "evs @ burst"]
  by (simp add: run_append wf_state_def)


theorem every_upload_starts_a_job_witness:
  "map_option concurrent (transcoding default_config) = Some 2
   \<and> length example_burst = 3
   \<and> length (jobs (run default_config ([] @ example_burst))) = 3
   \<and> processingQueue (run default_config ([] @ example_burst)) = []"
proof -
  have h: "\<forall>e \<in> set example_burst. accepted_upload e"
    by (simp add: example_burst_def accepted_upload_def example_request_def)
  have 0: "jobs (run default_config []) = []" by (simp add: run_def initial_state_def)
  have 3: "length example_burst = 3" by (simp add: example_burst_def)
  show ?thesis
    using every_upload_starts_a_job[OF h, of default_config "[]"] 0 3
    by (simp add: default_config_def)
qed

lemma find_resuspended:
  "find (\<lambda>j'. job_video j' = job_video j)
     (filter (\<lambda>j'. job_video j' \<noteq> job_video j) js @ [j\<lparr>job_stage := st\<rparr>]) = Some (j\<lparr>job_stage := st\<rparr>)"
  by (induction js) simp_all

lemma find_removed:
  "find (\<lambda>j'. job_video j' = r) (filter (\<lambda>j'. job_video j' \<noteq> r) js) = None"
  by (simp add: find_None_iff)

lemma drive_none:
  "find (\<lambda>j. job_video j = r) (jobs s) = None \<Longrightarrow> drive config eng now r s = s"
  by (simp add: drive_def)

lemma wf_drive: "wf_state s \<Longrightarrow> wf_state (drive config eng now r s)"
  by (simp add: drive_def wf_step split: option.splits)

lemma drive_resume:
  assumes "find (\<lambda>j. job_video j = r) (jobs s) = Some j"
  shows "drive config eng now r s =
     processVideo_resume config (s\<lparr>jobs := filter (\<lambda>j'. job_video j' \<noteq> r) (jobs s)\<rparr>) j
       (engine_outcome eng (job_stage j)) now"
  using assms by (simp add: drive_def step_settle)

text \<open>One settling of the job of \<open>r\<close>: what becomes of the job and of the record.\<close>

lemma drive_rejected:
  assumes "wf_state s" and "find (\<lambda>j. job_video j = r) (jobs s) = Some j"
    and "engine_outcome eng (job_stage j) = Rejected"
  shows "find (\<lambda>j. job_video j = r) (jobs (drive config eng now r s)) = None"
    and "heap (drive config eng now r s) ! r = (heap s ! r)\<lparr>status := Error, updatedAt := now\<rparr>"
proof -
  from assms(2) have j: "j \<in> set (jobs s)" "job_video j = r" using find_job_SomeD by blast+
  then have r: "r < length (heap s)" using wf_job[OF assms(1)] by blast
  have d: "drive config eng now r s =
      processVideo_catch (s\<lparr>jobs := filter (\<lambda>j'. job_video j' \<noteq> r) (jobs s)\<rparr>) j now"
    by (simp add: drive_resume[OF assms(2)] assms(3) resume_simps)
  show "find (\<lambda>j. job_video j = r) (jobs (drive config eng now r s)) = None"
    unfolding d by (simp add: catch_record find_removed)
  show "heap (drive config eng now r s) ! r = (heap s ! r)\<lparr>status := Error, updatedAt := now\<rparr>"
    unfolding d using catch_record(1)[of j "s\<lparr>jobs := filter (\<lambda>j'. job_video j' \<noteq> r) (jobs s)\<rparr>" now] r j
    by simp
qed

lemma drive_finish:
  assumes "wf_state s" and "find (\<lambda>j. job_video j = r) (jobs s) = Some j"
    and "engine_outcome eng (job_stage j) = Fulfilled d"
    and "job_stage j = AwaitHLS \<or> (job_stage j = AwaitMetadata \<and> \<not> formats_include_hls config)"
  shows "find (\<lambda>j. job_video j = r) (jobs (drive config eng now r s)) = None"
    and "status (heap (drive config eng now r s) ! r) = Ready"
    and "thumbnailUrl (heap (drive config eng now r s) ! r) = Some (''/streaming/thumbnails/'' @ job_videoId j)"
    and "streamingUrls (heap (drive config eng now r s) ! r) \<noteq> None"
proof -
  from assms(2) have j: "j \<in> set (jobs s)" "job_video j = r" using find_job_SomeD by blast+
  then have r: "r < length (heap s)" using wf_job[OF assms(1)] by blast
  let ?t = "s\<lparr>jobs := filter (\<lambda>j'. job_video j' \<noteq> r) (jobs s)\<rparr>"
  from assms(4) obtain t where
    d: "drive config eng now r s = processVideo_finish t j now"
    and t: "jobs t = jobs ?t" "length (heap t) = length (heap s)"
    using drive_resume[OF assms(2), of config eng now] assms(3)
    by (auto simp: resume_simps) 
  have rt: "job_video j < length (heap t)" using r j t by simp
  show "find (\<lambda>j. job_video j = r) (jobs (drive config eng now r s)) = None"
    unfolding d by (simp add: finish_record t find_removed)
  show "status (heap (drive config eng now r s) ! r) = Ready"
    unfolding d using finish_record(1)[OF rt, of now] j by simp
  show "thumbnailUrl (heap (drive config eng now r s) ! r) = Some (''/streaming/thumbnails/'' @ job_videoId j)"
    unfolding d using finish_record(1)[OF rt, of now] j by simp
  show "streamingUrls (heap (drive config eng now r s) ! r) \<noteq> None"
    unfolding d using finish_record(1)[OF rt, of now] j by simp
qed

lemma drive_suspend:
  assumes "wf_state s" and "find (\<lambda>j. job_video j = r) (jobs s) = Some j"
    and "engine_outcome eng (job_stage j) = Fulfilled d"
    and "(job_stage j = AwaitEnsureDir \<and> st = AwaitThumbnail)
       \<or> (job_stage j = AwaitThumbnail \<and> st = AwaitMetadata)
       \<or> (job_stage j = AwaitMetadata \<and> formats_include_hls config \<and> st = AwaitHLS)"
  shows "find (\<lambda>j. job_video j = r) (jobs (drive config eng now r s)) = Some (j\<lparr>job_stage := st\<rparr>)"
    and "thumbnailUrl (heap (drive config eng now r s) ! r) = thumbnailUrl (heap s ! r)"
proof -
  from assms(2) have j: "j \<in> set (jobs s)" "job_video j = r" using find_job_SomeD by blast+
  then have r: "r < length (heap s)" using wf_job[OF assms(1)] by blast
  let ?t = "s\<lparr>jobs := filter (\<lambda>j'. job_video j' \<noteq> r) (jobs s)\<rparr>"
  from assms(4) obtain t where
    d: "drive config eng now r s = suspend j st t"
    and t: "jobs t = jobs ?t" "thumbnailUrl (heap t ! r) = thumbnailUrl (heap s ! r)"
    using drive_resume[OF assms(2), of config eng now] assms(3) r j
    by (auto simp: resume_simps)
  show "find (\<lambda>j. job_video j = r) (jobs (drive config eng now r s)) = Some (j\<lparr>job_stage := st\<rparr>)"
    unfolding d using find_resuspended[of j "jobs s" st] j by (simp add: t)
  show "thumbnailUrl (heap (drive config eng now r s) ! r) = thumbnailUrl (heap s ! r)"
    unfolding d by (simp add: t)
qed


lemma find_new_job:
  "\<forall>j' \<in> set js. job_video j' \<noteq> job_video j \<Longrightarrow>
    find (\<lambda>j'. job_video j' = job_video j) (js @ [j]) = Some j"
  by (induction js) simp_all

lemma upload_job:
  assumes wf: "wf_state s" and f: "req_file req = Some f"
  shows "find (\<lambda>j. job_video j = length (heap s)) (jobs (fst (upload_handler s req uuid now)))
           = Some \<lparr>job_video = length (heap s), job_videoId = uuid, job_stage = AwaitEnsureDir\<rparr>"
    and "thumbnailUrl (heap (fst (upload_handler s req uuid now)) ! length (heap s)) = None"
proof -
  have nojob: "\<forall>j \<in> set (jobs s). job_video j \<noteq> length (heap s)"
    using wf by (auto simp: wf_state_def)
  show "find (\<lambda>j. job_video j = length (heap s)) (jobs (fst (upload_handler s req uuid now)))
           = Some \<lparr>job_video = length (heap s), job_videoId = uuid, job_stage = AwaitEnsureDir\<rparr>"
    using find_new_job[of "jobs s" "\<lparr>job_video = length (heap s), job_videoId = uuid, job_stage = AwaitEnsureDir\<rparr>"]
      nojob by (simp add: upload_state[OF f])
  show "thumbnailUrl (heap (fst (upload_handler s req uuid now)) ! length (heap s)) = None"
    by (simp add: upload_state[OF f] new_video_def)
qed

text \<open>
  C2, as amended. After an accepted upload, the job of the new record ends with status
  ready, and with a thumbnail reference, exactly when all of the directory creation, the
  thumbnail generation, the probe and (if HLS is configured) the encoding succeed; in
  every other case, a failed thumbnail generation among them, it ends with status error
  and without a thumbnail reference.
\<close>

theorem processing_outcome:
  assumes "req_file req = Some f"
  shows "let r = length (heap (run config evs));
             s1 = step config (run config evs) (Upload req uuid now);
             s2 = processVideo_complete config eng now' r s1;
             succeeded = (on_ensureDir eng \<noteq> Rejected \<and> on_thumbnail eng \<noteq> Rejected
                          \<and> on_metadata eng \<noteq> Rejected
                          \<and> (formats_include_hls config \<longrightarrow> on_hls eng \<noteq> Rejected))
         in status (heap s2 ! r) = (if succeeded then Ready else Error)
          \<and> thumbnailUrl (heap s2 ! r) = (if succeeded then Some (''/streaming/thumbnails/'' @ uuid) else None)
          \<and> find (\<lambda>j. job_video j = r) (jobs s2) = None"
proof -
  define r where "r = length (heap (run config evs))"
  define s1 where "s1 = step config (run config evs) (Upload req uuid now)"
  define succeeded where "succeeded \<longleftrightarrow> (on_ensureDir eng \<noteq> Rejected \<and> on_thumbnail eng \<noteq> Rejected
      \<and> on_metadata eng \<noteq> Rejected \<and> (formats_include_hls config \<longrightarrow> on_hls eng \<noteq> Rejected))"
  define G where "G s \<longleftrightarrow> status (heap s ! r) = (if succeeded then Ready else Error)
      \<and> thumbnailUrl (heap s ! r) = (if succeeded then Some (''/streaming/thumbnails/'' @ uuid) else None)
      \<and> find (\<lambda>j. job_video j = r) (jobs s) = None" for s :: service_state
  let ?D = "drive config eng now' r"
  let ?j0 = "\<lparr>job_video = r, job_videoId = uuid, job_stage = AwaitEnsureDir\<rparr>"
  have s1: "s1 = fst (upload_handler (run config evs) req uuid now)"
    by (simp add: s1_def step_def)
  have wf1: "wf_state s1" unfolding s1_def by (rule wf_step[OF wf_run])
  have f1: "find (\<lambda>j. job_video j = r) (jobs s1) = Some ?j0"
    and t1: "thumbnailUrl (heap s1 ! r) = None"
    unfolding s1 r_def using upload_job[OF wf_run assms] by simp_all
  have stop: "?D s = s" if "find (\<lambda>j. job_video j = r) (jobs s) = None" for s
    using that by (rule drive_none)
  have failed: "G (?D s)"
    if "wf_state s" "find (\<lambda>j. job_video j = r) (jobs s) = Some j"
      "engine_outcome eng (job_stage j) = Rejected" "thumbnailUrl (heap s ! r) = None" "\<not> succeeded"
    for s j
    using drive_rejected[OF that(1,2,3), of config now'] that(4,5) by (simp add: G_def)
  have finished: "G (?D s)"
    if "wf_state s" "find (\<lambda>j. job_video j = r) (jobs s) = Some j" "job_videoId j = uuid"
      "engine_outcome eng (job_stage j) = Fulfilled d"
      "job_stage j = AwaitHLS \<or> (job_stage j = AwaitMetadata \<and> \<not> formats_include_hls config)"
      "succeeded"
    for s j d
    using drive_finish[OF that(1,2,4,5), of now'] that(3,6) by (simp add: G_def)
  have G_stop: "G (?D s)" if "G s" for s
    using that stop[of s] by (simp add: G_def)
  have goal: "G (?D (?D (?D (?D s1))))"
  proof (cases "on_ensureDir eng")
    case Rejected
    then have "G (?D s1)"
      using failed[OF wf1 f1] t1 by (simp add: engine_outcome_def succeeded_def)
    then show ?thesis by (blast intro: G_stop)
  next
    case (Fulfilled d1)
    let ?j1 = "?j0\<lparr>job_stage := AwaitThumbnail\<rparr>"
    let ?s2 = "?D s1"
    have wf2: "wf_state ?s2" using wf1 by (rule wf_drive)
    have f2: "find (\<lambda>j. job_video j = r) (jobs ?s2) = Some ?j1"
      and t2: "thumbnailUrl (heap ?s2 ! r) = None"
      using drive_suspend[OF wf1 f1, of eng d1 AwaitThumbnail config now'] Fulfilled t1
      by (simp_all add: engine_outcome_def)
    show ?thesis
    proof (cases "on_thumbnail eng")
      case Rejected
      then have "G (?D ?s2)"
        using failed[OF wf2 f2] t2 by (simp add: engine_outcome_def succeeded_def)
      then show ?thesis by (blast intro: G_stop)
    next
      case (Fulfilled d2)
      let ?j2 = "?j0\<lparr>job_stage := AwaitMetadata\<rparr>"
      let ?s3 = "?D ?s2"
      have wf3: "wf_state ?s3" using wf2 by (rule wf_drive)
      have f3: "find (\<lambda>j. job_video j = r) (jobs ?s3) = Some ?j2"
        and t3: "thumbnailUrl (heap ?s3 ! r) = None"
        using drive_suspend[OF wf2 f2, of eng d2 AwaitMetadata config now'] Fulfilled t2
        by (simp_all add: engine_outcome_def)
      show ?thesis
      proof (cases "on_metadata eng")
        case Rejected
        then have "G (?D ?s3)"
          using failed[OF wf3 f3] t3 by (simp add: engine_outcome_def succeeded_def)
        then show ?thesis by (blast intro: G_stop)
      next
        case (Fulfilled d3)
        note m = Fulfilled
        show ?thesis
        proof (cases "formats_include_hls config")
          case False
          have "succeeded"
            using False m \<open>on_ensureDir eng = Fulfilled d1\<close> \<open>on_thumbnail eng = Fulfilled d2\<close>
            by (simp add: succeeded_def)
          then have "G (?D ?s3)"
            using finished[OF wf3 f3, of d3] m False by (simp add: engine_outcome_def)
          then show ?thesis by (blast intro: G_stop)
        next
          case True
          let ?j3 = "?j0\<lparr>job_stage := AwaitHLS\<rparr>"
          let ?s4 = "?D ?s3"
          have wf4: "wf_state ?s4" using wf3 by (rule wf_drive)
          have f4: "find (\<lambda>j. job_video j = r) (jobs ?s4) = Some ?j3"
            and t4: "thumbnailUrl (heap ?s4 ! r) = None"
            using drive_suspend[OF wf3 f3, of eng d3 AwaitHLS config now'] m t3 True
            by (simp_all add: engine_outcome_def)
          show ?thesis
          proof (cases "on_hls eng")
            case Rejected
            then show ?thesis
              using failed[OF wf4 f4] t4 True by (simp add: engine_outcome_def succeeded_def)
          next
            case (Fulfilled d4)
            have "succeeded"
              using True m Fulfilled \<open>on_ensureDir eng = Fulfilled d1\<close> \<open>on_thumbnail eng = Fulfilled d2\<close>
              by (simp add: succeeded_def)
            then show ?thesis
              using finished[OF wf4 f4, of d4] Fulfilled by (simp add: engine_outcome_def)
          qed
        qed
      qed
    qed
  qed
  then show ?thesis
    unfolding G_def succeeded_def r_def s1_def processVideo_complete_def Let_def by simp
qed

lemma run_ready: "run default_config example_ready_run =
   \<lparr>heap = [\<lparr>video_id = ''v1'', title = ''a.mp4'', description = None, userId = ''anonymous'',
            filename = ''1-a.mp4'', originalUrl = ''/streaming/videos/1-a.mp4'',
            streamingUrls = Some \<lparr>hls = Some ''/streaming/stream/v1/playlist.m3u8'', dash = None\<rparr>,
            thumbnailUrl = Some ''/streaming/thumbnails/v1'', duration = Some 10, video_size = 1000,
            status = Ready, createdAt = 1, updatedAt = 5\<rparr>],
     videos = [(''v1'', 0)], processingQueue = [], jobs = []\<rparr>"
  by (simp add: eval_defs example_ready_run_def)

text \<open>
  C1 at work: a run that takes a record to ready, and a job whose first awaited operation
  fails.
\<close>

theorem manifest_iff_ready_invariant_witness:
  "(''v1'', 0) \<in> set (videos (run default_config example_ready_run))
   \<and> status (heap (run default_config example_ready_run) ! 0) = Ready
   \<and> streamingUrls (heap (run default_config example_ready_run) ! 0) \<noteq> None
   \<and> \<lparr>job_video = 0, job_videoId = ''v1'', job_stage = AwaitEnsureDir\<rparr>
        \<in> set (jobs (run default_config [Upload (example_request ''a.mp4'') ''v1'' 1]))
   \<and> status (heap (step default_config (run default_config [Upload (example_request ''a.mp4'') ''v1'' 1])
                (Settle 0 Rejected 2)) ! 0) = Error
   \<and> streamingUrls (heap (step default_config (run default_config [Upload (example_request ''a.mp4'') ''v1'' 1])
                (Settle 0 Rejected 2)) ! 0) = None"
proof -
  let ?j = "\<lparr>job_video = 0, job_videoId = ''v1'', job_stage = AwaitEnsureDir\<rparr>"
  have m: "(''v1'', 0) \<in> set (videos (run default_config example_ready_run))"
    and st: "status (heap (run default_config example_ready_run) ! 0) = Ready"
    by (simp_all add: run_ready)
  have j: "?j \<in> set (jobs (run default_config [Upload (example_request ''a.mp4'') ''v1'' 1]))"
    using run1 by simp
  from manifest_iff_ready_invariant[of default_config example_ready_run 2] m
  have "(streamingUrls (heap (run default_config example_ready_run) ! 0) \<noteq> None)
      = (status (heap (run default_config example_ready_run) ! 0) = Ready)"
    by blast
  with st have 1: "streamingUrls (heap (run default_config example_ready_run) ! 0) \<noteq> None" by simp
  from manifest_iff_ready_invariant[of default_config "[Upload (example_request ''a.mp4'') ''v1'' 1]" 2] j
  have "let s' = step default_config (run default_config [Upload (example_request ''a.mp4'') ''v1'' 1])
                   (Settle (job_video ?j) Rejected 2)
        in status (heap s' ! job_video ?j) = Error \<and> streamingUrls (heap s' ! job_video ?j) = None
          \<and> map_of (videos s') (job_videoId ?j) = Some (job_video ?j)
          \<and> find (\<lambda>j'. job_video j' = job_video ?j) (jobs s') = None"
    by blast
  then have 2: "status (heap (step default_config (run default_config [Upload (example_request ''a.mp4'') ''v1'' 1])
                (Settle 0 Rejected 2)) ! 0) = Error"
    "streamingUrls (heap (step default_config (run default_config [Upload (example_request ''a.mp4'') ''v1'' 1])
                (Settle 0 Rejected 2)) ! 0) = None"
    by (simp_all add: Let_def)
  from m st 1 j 2 show ?thesis by (intro conjI)
qed

lemma example_request_file:
  "req_file (example_request name) = Some \<lparr>originalname = name, file_filename = ''1-'' @ name, file_size = 1000\<rparr>"
  by (simp add: example_request_def)

text \<open>
  C2 as stated fails: the thumbnail generation fails, the probe and the encoding would
  succeed, and the record ends with status error.
\<close>

theorem thumbnail_failure_counterexample:
  "on_metadata thumbnail_failing_engine \<noteq> Rejected
   \<and> on_hls thumbnail_failing_engine \<noteq> Rejected
   \<and> status (heap (processVideo_complete default_config thumbnail_failing_engine 2 0
        (step default_config (run default_config []) (Upload (example_request ''a.mp4'') ''v1'' 1))) ! 0) = Error"
  by (simp add: eval_defs thumbnail_failing_engine_def processVideo_complete_def drive_def engine_outcome_def)

theorem processing_outcome_witness:
  "req_file (example_request ''a.mp4'') \<noteq> None
   \<and> formats_include_hls default_config
   \<and> on_hls succeeding_engine \<noteq> Rejected
   \<and> status (heap (processVideo_complete default_config succeeding_engine 2 0
        (step default_config (run default_config []) (Upload (example_request ''a.mp4'') ''v1'' 1))) ! 0) = Ready
   \<and> thumbnailUrl (heap (processVideo_complete default_config succeeding_engine 2 0
        (step default_config (run default_config []) (Upload (example_request ''a.mp4'') ''v1'' 1))) ! 0)
       = Some ''/streaming/thumbnails/v1''"
proof -
  have 0: "length (heap (run default_config [])) = 0" by (simp add: run_def initial_state_def)
  have h: "formats_include_hls default_config"
    by (simp add: formats_include_hls_def default_config_def)
  show ?thesis
    using processing_outcome[where req="example_request ''a.mp4''" and config=default_config
        and evs="[]" and uuid="''v1''" and now=1 and eng=succeeding_engine and now'=2,
        OF example_request_file] h
    by (simp add: Let_def 0 succeeding_engine_def example_request_file)
qed

section \<open>The delivery routes\<close>

text \<open>
  C3, as amended. For every id in the registry whose record is not ready (uploading,
  processing or error), the manifest route answers with the error 404
  \<open>Video not ready for streaming\<close>, which is also its answer to an unknown id; it does
  not send the manifest.
\<close>

theorem playlist_not_ready:
  assumes "map_of (videos s) ident = Some r" and "status (heap s ! r) \<noteq> Ready"
    and "map_of (videos s) unknown = None"
  shows "playlist_handler config fs s ident = JsonError 404 ''Video not ready for streaming''
       \<and> playlist_handler config fs s unknown = JsonError 404 ''Video not ready for streaming''"
  using assms by (simp add: playlist_handler_def not_ready_def)

theorem playlist_not_ready_witness:
  "map_of (videos (run default_config [Upload (example_request ''a.mp4'') ''v1'' 1])) ''v1'' = Some 0
   \<and> status (heap (run default_config [Upload (example_request ''a.mp4'') ''v1'' 1]) ! 0) = Processing
   \<and> map_of (videos (run default_config [Upload (example_request ''a.mp4'') ''v1'' 1])) ''v9'' = None
   \<and> playlist_handler default_config example_fs
        (run default_config [Upload (example_request ''a.mp4'') ''v1'' 1]) ''v1''
       = JsonError 404 ''Video not ready for streaming''"
proof -
  let ?s = "run default_config [Upload (example_request ''a.mp4'') ''v1'' 1]"
  have 1: "map_of (videos ?s) ''v1'' = Some 0" using run1 by simp
  have 2: "status (heap ?s ! 0) = Processing" using run1 by simp
  have nr: "status (heap ?s ! 0) \<noteq> Ready" using 2 by simp
  have 3: "map_of (videos ?s) ''v9'' = None" using run1 by simp
  from playlist_not_ready[OF 1 nr 3, of default_config example_fs] 1 2 3
  show ?thesis by blast
qed

text \<open>
  C3 as stated fails: the answer for a record in processing is the answer for an unknown
  id, a 404.
\<close>

theorem playlist_not_ready_counterexample:
  "status (heap (run default_config [Upload (example_request ''a.mp4'') ''v1'' 1]) ! 0) = Processing
   \<and> map_of (videos (run default_config [Upload (example_request ''a.mp4'') ''v1'' 1])) ''v1'' = Some 0
   \<and> map_of (videos (run default_config [Upload (example_request ''a.mp4'') ''v1'' 1])) ''v9'' = None
   \<and> playlist_handler default_config example_fs
        (run default_config [Upload (example_request ''a.mp4'') ''v1'' 1]) ''v1''
     = playlist_handler default_config example_fs
        (run default_config [Upload (example_request ''a.mp4'') ''v1'' 1]) ''v9''
   \<and> playlist_handler default_config example_fs
        (run default_config [Upload (example_request ''a.mp4'') ''v1'' 1]) ''v1''
     = JsonError 404 ''Video not ready for streaming''"
  using run1 by (simp add: playlist_handler_def not_ready_def)

lemma js_slice_page:
  assumes "0 \<le> a" and "0 \<le> l"
  shows "js_slice xs a (a + l) = take (nat l) (drop (nat a) xs)"
proof (cases "a \<le> int (length xs)")
  case True
  have "take (nat (min (a + l) (int (length xs)) - a)) (drop (nat a) xs) = take (nat l) (drop (nat a) xs)"
  proof (cases "a + l \<le> int (length xs)")
    case True
    then show ?thesis by (simp add: min_def)
  next
    case False
    then have "length (drop (nat a) xs) \<le> nat l" "length (drop (nat a) xs) \<le> nat (int (length xs) - a)"
      using assms by auto
    then show ?thesis using False by (simp add: min_def)
  qed
  then show ?thesis using True assms by (simp add: js_slice_def Let_def min_def)
next
  case False
  then show ?thesis using assms by (simp add: js_slice_def Let_def min_def)
qed

lemma matching_videos_filter:
  "matching_videos s q =
    filter (\<lambda>v. (truthy (query_userId q) \<longrightarrow> Some (userId v) = query_userId q)
               \<and> (truthy (query_status q) \<longrightarrow> Some (status_string (status v)) = query_status q))
      (map (\<lambda>(k, r). heap s ! r) (videos s))"
  by (simp add: matching_videos_def Let_def conj_commute)

text \<open>
  The order of the \<open>Map\<close> in a run without deletions. \<open>this.videos.set\<close> of
  \<open>processVideo\<close> finds the id in the \<open>Map\<close>, with the same record, and leaves
  the order as it is.
\<close>

lemma update_new: "k \<notin> fst ` set al \<Longrightarrow> AList.update k v al = al @ [(k, v)]"
  by (induction al) auto

lemma videos_set_triv: "map_of (videos s) k = Some r \<Longrightarrow> videos_set k r s = s"
  by (simp add: videos_set_def update_triv)

lemma order_initial: "in_upload_order initial_state []"
  by (simp add: in_upload_order_def initial_state_def)

lemma order_modify_video:
  assumes "in_upload_order s us"
    and "\<And>v. video_id (f v) = video_id v" and "\<And>v. createdAt (f v) = createdAt v"
  shows "in_upload_order (modify_video r f s) us"
proof -
  let ?h = "(heap s)[r := f (heap s ! r)]"
  have h: "createdAt (?h ! r') = createdAt (heap s ! r') \<and> video_id (?h ! r') = video_id (heap s ! r')"
    if "r' < length (heap s)" for r'
    using that assms(2,3) by (cases "r' = r") simp_all
  have b: "\<forall>(k, r') \<in> set (videos s). r' < length (heap s) \<and> video_id (heap s ! r') = k"
    and m: "map (\<lambda>(k, r'). (k, createdAt (heap s ! r'))) (videos s) = us"
    and js: "\<forall>j \<in> set (jobs s). map_of (videos s) (job_videoId j) = Some (job_video j)"
    using assms(1) unfolding in_upload_order_def by blast+
  have "map (\<lambda>(k, r'). (k, createdAt (?h ! r'))) (videos s)
      = map (\<lambda>(k, r'). (k, createdAt (heap s ! r'))) (videos s)"
  proof (rule map_cong[OF refl])
    fix x assume "x \<in> set (videos s)"
    then have "snd x < length (heap s)" using b by (auto simp: case_prod_beta)
    then show "(case x of (k, r') \<Rightarrow> (k, createdAt (?h ! r'))) = (case x of (k, r') \<Rightarrow> (k, createdAt (heap s ! r')))"
      using h by (simp add: case_prod_beta)
  qed
  moreover have "\<forall>(k, r') \<in> set (videos s). r' < length ?h \<and> video_id (?h ! r') = k"
    using b h by (auto simp: case_prod_beta)
  ultimately show ?thesis using m js unfolding in_upload_order_def
    by (simp add: modify_video_def)
qed

lemma order_suspend:
  assumes "in_upload_order s us" and "map_of (videos s) (job_videoId j) = Some (job_video j)"
  shows "in_upload_order (suspend j st s) us"
  using assms unfolding in_upload_order_def by (auto simp: suspend_def)

lemma order_remove_jobs:
  "in_upload_order s us \<Longrightarrow> in_upload_order (s\<lparr>jobs := filter P (jobs s)\<rparr>) us"
  unfolding in_upload_order_def by auto

lemma order_catch:
  assumes "in_upload_order s us" and "map_of (videos s) (job_videoId j) = Some (job_video j)"
  shows "in_upload_order (processVideo_catch s j now) us"
proof -
  let ?s = "modify_video (job_video j) (\<lambda>v. v\<lparr>status := Error, updatedAt := now\<rparr>) s"
  have "map_of (videos ?s) (job_videoId j) = Some (job_video j)" using assms(2) by simp
  then have "processVideo_catch s j now = ?s"
    unfolding processVideo_catch_def by (rule videos_set_triv)
  then show ?thesis using order_modify_video[OF assms(1)] by simp
qed

lemma order_finish:
  assumes "in_upload_order s us" and "map_of (videos s) (job_videoId j) = Some (job_video j)"
  shows "in_upload_order (processVideo_finish s j now) us"
proof -
  let ?f = "\<lambda>v. v\<lparr>status := Ready,
                streamingUrls := Some \<lparr>hls = Some (''/streaming/stream/'' @ job_videoId j @ ''/playlist.m3u8''),
                                        dash = None\<rparr>,
                thumbnailUrl := Some (''/streaming/thumbnails/'' @ job_videoId j),
                updatedAt := now\<rparr>"
  let ?s = "modify_video (job_video j) ?f s"
  have "map_of (videos ?s) (job_videoId j) = Some (job_video j)" using assms(2) by simp
  then have "processVideo_finish s j now = ?s"
    unfolding processVideo_finish_def by (rule videos_set_triv)
  then show ?thesis using order_modify_video[OF assms(1), of ?f] by simp
qed

lemma order_resume:
  assumes "in_upload_order s us" and m: "map_of (videos s) (job_videoId j) = Some (job_video j)"
  shows "in_upload_order (processVideo_resume config s j out now) us"
proof (cases out)
  case Rejected
  then show ?thesis using order_catch[OF assms] by (simp add: resume_simps)
next
  case (Fulfilled d)
  let ?d = "modify_video (job_video j) (\<lambda>v. v\<lparr>duration := d\<rparr>) s"
  have od: "in_upload_order ?d us" using order_modify_video[OF assms(1)] by simp
  have md: "map_of (videos ?d) (job_videoId j) = Some (job_video j)" using m by simp
  show ?thesis
  proof (cases "job_stage j")
    case AwaitEnsureDir
    then show ?thesis unfolding Fulfilled resume_simps(2)[OF AwaitEnsureDir]
      using order_suspend[OF assms] by simp
  next
    case AwaitThumbnail
    then show ?thesis unfolding Fulfilled resume_simps(3)[OF AwaitThumbnail]
      using order_suspend[OF assms] by simp
  next
    case AwaitMetadata
    show ?thesis
    proof (cases "formats_include_hls config")
      case True
      show ?thesis unfolding Fulfilled resume_simps(4)[OF AwaitMetadata True]
        using order_suspend[OF od md] by simp
    next
      case False
      show ?thesis unfolding Fulfilled resume_simps(5)[OF AwaitMetadata False]
        using order_finish[OF od md] by simp
    qed
  next
    case AwaitHLS
    show ?thesis unfolding Fulfilled resume_simps(6)[OF AwaitHLS]
      using order_finish[OF assms] by simp
  qed
qed

lemma order_upload:
  assumes o: "in_upload_order s us" and f: "req_file req = Some f" and new: "uuid \<notin> set (map fst us)"
  shows "in_upload_order (fst (upload_handler s req uuid now)) (us @ [(uuid, now)])"
proof -
  let ?r = "length (heap s)"
  let ?s1 = "s\<lparr>heap := heap s @ [new_video req f uuid now]\<rparr>"
  let ?s2 = "videos_set uuid ?r ?s1"
  let ?s3 = "modify_video ?r (\<lambda>v. v\<lparr>status := Processing, updatedAt := now\<rparr>) ?s2"
  have keys: "map fst (videos s) = map fst us"
    using o unfolding in_upload_order_def by (auto simp: case_prod_beta comp_def)
  then have nk: "uuid \<notin> fst ` set (videos s)" using new by (metis set_map)
  have v2: "videos ?s2 = videos s @ [(uuid, ?r)]" using update_new[OF nk] by (simp add: videos_set_def)
  have b: "\<forall>(k, r) \<in> set (videos s). r < length (heap s) \<and> video_id (heap s ! r) = k"
    and m: "map (\<lambda>(k, r). (k, createdAt (heap s ! r))) (videos s) = us"
    and js: "\<forall>j \<in> set (jobs s). map_of (videos s) (job_videoId j) = Some (job_video j)"
    using o unfolding in_upload_order_def by blast+
  have m2: "map (\<lambda>(k, r). (k, createdAt ((heap s @ [new_video req f uuid now]) ! r))) (videos s) = us"
    using b m by (auto simp: nth_append case_prod_beta intro!: map_cong)
  have o2: "in_upload_order ?s2 (us @ [(uuid, now)])"
    unfolding in_upload_order_def
  proof (intro conjI)
    show "map (\<lambda>(k, r). (k, createdAt (heap ?s2 ! r))) (videos ?s2) = us @ [(uuid, now)]"
      unfolding v2 using m2 by (simp add: new_video_def)
    show "\<forall>(k, r) \<in> set (videos ?s2). r < length (heap ?s2) \<and> video_id (heap ?s2 ! r) = k"
      unfolding v2 using b by (auto simp: nth_append new_video_def)
    show "\<forall>j \<in> set (jobs ?s2). map_of (videos ?s2) (job_videoId j) = Some (job_video j)"
      unfolding v2 using js by (simp add: map_add_Some_iff)
  qed
  have o3: "in_upload_order ?s3 (us @ [(uuid, now)])"
    using order_modify_video[OF o2] by simp
  have m3: "map_of (videos ?s3) uuid = Some ?r" by (simp add: update_conv')
  then have t: "videos_set uuid ?r ?s3 = ?s3" by (rule videos_set_triv)
  have "in_upload_order
          (suspend \<lparr>job_video = ?r, job_videoId = uuid, job_stage = AwaitEnsureDir\<rparr> AwaitEnsureDir ?s3)
          (us @ [(uuid, now)])"
    by (rule order_suspend[OF o3]) (simp add: update_conv')
  then show ?thesis unfolding upload_state[OF f] t .
qed

lemma uploads_snoc: "uploads (evs @ [e]) = uploads evs @ upload_of e"
  by (simp add: uploads_def)

lemma order_step:
  assumes o: "in_upload_order s us" and nd: "\<not> is_delete e"
    and d: "distinct (map fst (us @ upload_of e))"
  shows "in_upload_order (step config s e) (us @ upload_of e)"
proof (cases e)
  case (Upload req uuid now)
  show ?thesis
  proof (cases "req_file req")
    case None
    then show ?thesis using o Upload by (simp add: step_def upload_handler_def upload_of_def)
  next
    case (Some f)
    then have u: "upload_of e = [(uuid, now)]" using Upload by (simp add: upload_of_def)
    then have "uuid \<notin> set (map fst us)" using d by simp
    from order_upload[OF o Some this, of now] show ?thesis using u by (simp add: step_def Upload)
  qed
next
  case (Settle r out now)
  then have u: "upload_of e = []" by (simp add: upload_of_def)
  show ?thesis
  proof (cases "find (\<lambda>j. job_video j = r) (jobs s)")
    case None
    then show ?thesis using o Settle u by (simp add: step_def)
  next
    case (Some j)
    then have "j \<in> set (jobs s)" using find_job_SomeD by blast
    then have m: "map_of (videos s) (job_videoId j) = Some (job_video j)"
      using o unfolding in_upload_order_def by blast
    let ?s = "s\<lparr>jobs := filter (\<lambda>j'. job_video j' \<noteq> r) (jobs s)\<rparr>"
    have "in_upload_order ?s us" using o by (rule order_remove_jobs)
    moreover have "map_of (videos ?s) (job_videoId j) = Some (job_video j)" using m by simp
    ultimately have "in_upload_order (processVideo_resume config ?s j out now) us"
      by (rule order_resume)
    then show ?thesis unfolding Settle step_settle[OF Some] using u Settle by simp
  qed
next
  case (Delete ident)
  then show ?thesis using nd by (simp add: is_delete_def)
qed

lemma order_run:
  assumes "\<forall>e \<in> set evs. \<not> is_delete e" and "distinct (map fst (uploads evs))"
  shows "in_upload_order (run config evs) (uploads evs)"
  using assms
proof (induction evs rule: rev_induct)
  case Nil
  then show ?case using order_initial by (simp add: run_def uploads_def)
next
  case (snoc e evs)
  have d: "distinct (map fst (uploads evs @ upload_of e))" using snoc.prems(2) by (simp add: uploads_snoc)
  then have "distinct (map fst (uploads evs))" by simp
  then have "in_upload_order (run config evs) (uploads evs)" using snoc by simp
  from order_step[OF this _ d, of config] snoc.prems(1)
  show ?case by (simp add: run_append uploads_snoc)
qed

lemma listed_in_upload_order:
  assumes "\<forall>e \<in> set evs. \<not> is_delete e" and "distinct (map fst (uploads evs))"
  shows "map (\<lambda>v. (video_id v, createdAt v))
           (map (\<lambda>(k, r). heap (run config evs) ! r) (videos (run config evs))) = uploads evs"
proof -
  let ?s = "run config evs"
  from order_run[OF assms, of config]
  have m: "map (\<lambda>(k, r). (k, createdAt (heap ?s ! r))) (videos ?s) = uploads evs"
    and b: "\<forall>(k, r) \<in> set (videos ?s). video_id (heap ?s ! r) = k"
    unfolding in_upload_order_def by blast+
  have "map (\<lambda>v. (video_id v, createdAt v)) (map (\<lambda>(k, r). heap ?s ! r) (videos ?s))
      = map (\<lambda>(k, r). (k, createdAt (heap ?s ! r))) (videos ?s)"
    using b by (auto simp: case_prod_beta)
  then show ?thesis using m by simp
qed

text \<open>
  C8, as amended. For every registry state, every filter, every page from 1 on and every
  page size from 0 on, the list route returns the requested page of the records that match
  all supplied filters (user and status), in the insertion order of the registry, and the
  number of all matching records as total. An accepted upload with an id that the registry
  does not have goes to the end of that order. In every run of the service without
  deletions, in which the accepted uploads have distinct ids, the order of the registry is
  the order of the uploads, and each record has the clock of its upload as its creation
  time.
\<close>

theorem list_page_in_insertion_order:
  assumes "1 \<le> pg" and "0 \<le> lim"
    and "query_page q = Some pg" and "query_limit q = Some lim"
  shows "fst (list_handler s q) =
           take (nat lim) (drop (nat ((pg - 1) * lim))
             (filter (\<lambda>v. (truthy (query_userId q) \<longrightarrow> Some (userId v) = query_userId q)
                        \<and> (truthy (query_status q) \<longrightarrow> Some (status_string (status v)) = query_status q))
               (map (\<lambda>(k, r). heap s ! r) (videos s))))
       \<and> total (snd (list_handler s q)) =
           length (filter (\<lambda>v. (truthy (query_userId q) \<longrightarrow> Some (userId v) = query_userId q)
                        \<and> (truthy (query_status q) \<longrightarrow> Some (status_string (status v)) = query_status q))
               (map (\<lambda>(k, r). heap s ! r) (videos s)))
       \<and> page (snd (list_handler s q)) = pg \<and> limit (snd (list_handler s q)) = lim
       \<and> (\<forall>req f uuid now. req_file req = Some f \<and> uuid \<notin> set (map fst (videos s)) \<longrightarrow>
             map fst (videos (fst (upload_handler s req uuid now))) = map fst (videos s) @ [uuid])
       \<and> (\<forall>config evs. (\<forall>e \<in> set evs. \<not> is_delete e) \<and> distinct (map fst (uploads evs)) \<longrightarrow>
             map (\<lambda>v. (video_id v, createdAt v))
               (map (\<lambda>(k, r). heap (run config evs) ! r) (videos (run config evs))) = uploads evs)"
proof -
  have "0 \<le> (pg - 1) * lim" using assms by simp
  from js_slice_page[OF this assms(2)] assms(3,4)
  have 1: "fst (list_handler s q) = take (nat lim) (drop (nat ((pg - 1) * lim)) (matching_videos s q))"
    by (simp add: list_handler_def Let_def)
  have 2: "total (snd (list_handler s q)) = length (matching_videos s q)"
    "page (snd (list_handler s q)) = pg" "limit (snd (list_handler s q)) = lim"
    using assms(3,4) by (simp_all add: list_handler_def Let_def)
  have 3: "map fst (videos (fst (upload_handler s req uuid now))) = map fst (videos s) @ [uuid]"
    if "req_file req = Some f" "uuid \<notin> set (map fst (videos s))" for req f uuid now
    using that by (simp add: upload_state[OF that(1)] update_keys)
  have 4: "map (\<lambda>v. (video_id v, createdAt v))
               (map (\<lambda>(k, r). heap (run config evs) ! r) (videos (run config evs))) = uploads evs"
    if "\<forall>e \<in> set evs. \<not> is_delete e" "distinct (map fst (uploads evs))" for config evs
    using that by (rule listed_in_upload_order)
  from 1 2 3 4 show ?thesis unfolding matching_videos_filter by blast
qed

lemma example_request_fields:
  "body_title (example_request name) = None" "body_description (example_request name) = None"
  "req_user_id (example_request name) = None"
  by (simp_all add: example_request_def)

lemma run2: "run default_config example_two_uploads =
   \<lparr>heap = [\<lparr>video_id = ''v1'', title = ''a.mp4'', description = None, userId = ''anonymous'',
            filename = ''1-a.mp4'', originalUrl = ''/streaming/videos/1-a.mp4'', streamingUrls = None,
            thumbnailUrl = None, duration = None, video_size = 1000, status = Processing,
            createdAt = 1, updatedAt = 1\<rparr>,
           \<lparr>video_id = ''v2'', title = ''b.mp4'', description = None, userId = ''anonymous'',
            filename = ''1-b.mp4'', originalUrl = ''/streaming/videos/1-b.mp4'', streamingUrls = None,
            thumbnailUrl = None, duration = None, video_size = 1000, status = Processing,
            createdAt = 2, updatedAt = 2\<rparr>],
     videos = [(''v1'', 0), (''v2'', 1)], processingQueue = [],
     jobs = [\<lparr>job_video = 0, job_videoId = ''v1'', job_stage = AwaitEnsureDir\<rparr>,
             \<lparr>job_video = 1, job_videoId = ''v2'', job_stage = AwaitEnsureDir\<rparr>]\<rparr>"
proof -
  have "run default_config example_two_uploads =
      step default_config (run default_config [Upload (example_request ''a.mp4'') ''v1'' 1])
        (Upload (example_request ''b.mp4'') ''v2'' 2)"
    by (simp add: example_two_uploads_def run_def)
  then show ?thesis unfolding run1
    by (simp add: step_def upload_state[OF example_request_file] new_video_def or_string_def
        example_request_fields)
qed

text \<open>
  C8 as stated fails: of two uploads the older one is listed first.
\<close>

theorem list_order_counterexample:
  "map video_id (fst (list_handler (run default_config example_two_uploads) no_query)) = [''v1'', ''v2'']
   \<and> map createdAt (fst (list_handler (run default_config example_two_uploads) no_query)) = [1, 2]
   \<and> total (snd (list_handler (run default_config example_two_uploads) no_query)) = 2"
proof -
  have 1: "fst (list_handler s no_query) = js_slice (map (\<lambda>(k, r). heap s ! r) (videos s)) 0 10"
    and 2: "total (snd (list_handler s no_query)) = length (videos s)" for s
    by (simp_all add: list_handler_def matching_videos_def truthy_def no_query_def Let_def)
  show ?thesis unfolding 1 2 unfolding run2 by (simp add: js_slice_def)
qed

theorem list_page_in_insertion_order_witness:
  "query_page example_query = Some 2 \<and> query_limit example_query = Some 1
   \<and> map video_id (fst (list_handler (run default_config example_two_uploads) example_query)) = [''v2'']
   \<and> total (snd (list_handler (run default_config example_two_uploads) example_query)) = 2
   \<and> map fst (videos (fst (upload_handler (run default_config example_two_uploads)
          (example_request ''c.mp4'') ''v3'' 3))) = [''v1'', ''v2'', ''v3'']
   \<and> filter is_delete example_two_uploads = []
   \<and> distinct (map fst (uploads example_two_uploads))
   \<and> map (\<lambda>v. (video_id v, createdAt v))
        (map (\<lambda>(k, r). heap (run default_config example_two_uploads) ! r)
          (videos (run default_config example_two_uploads))) = [(''v1'', 1), (''v2'', 2)]"
proof -
  let ?s = "run default_config example_two_uploads"
  let ?r1 = "\<lparr>video_id = ''v1'', title = ''a.mp4'', description = None, userId = ''anonymous'',
            filename = ''1-a.mp4'', originalUrl = ''/streaming/videos/1-a.mp4'', streamingUrls = None,
            thumbnailUrl = None, duration = None, video_size = 1000, status = Processing,
            createdAt = 1, updatedAt = 1\<rparr>"
  let ?r2 = "\<lparr>video_id = ''v2'', title = ''b.mp4'', description = None, userId = ''anonymous'',
            filename = ''1-b.mp4'', originalUrl = ''/streaming/videos/1-b.mp4'', streamingUrls = None,
            thumbnailUrl = None, duration = None, video_size = 1000, status = Processing,
            createdAt = 2, updatedAt = 2\<rparr>"
  have h: "(1::int) \<le> 2" "(0::int) \<le> 1" "query_page example_query = Some 2"
    "query_limit example_query = Some 1"
    by (simp_all add: example_query_def)
  have u: "''v3'' \<notin> set (map fst (videos ?s))" and ks: "map fst (videos ?s) = [''v1'', ''v2'']"
    unfolding run2 by simp_all
  have vs: "map (\<lambda>(k, r). heap ?s ! r) (videos ?s) = [?r1, ?r2]"
    unfolding run2 by simp
  have q: "truthy (query_userId example_query)" "query_userId example_query = Some ''anonymous''"
    "truthy (query_status example_query)" "query_status example_query = Some ''processing''"
    by (simp_all add: example_query_def truthy_def)
  note t = list_page_in_insertion_order[OF h, of ?s, unfolded vs q]
  have 1: "map video_id (fst (list_handler ?s example_query)) = [''v2'']"
    unfolding t[THEN conjunct1] by (simp add: status_string_def)
  have 2: "total (snd (list_handler ?s example_query)) = 2"
    unfolding t[THEN conjunct2, THEN conjunct1] by (simp add: status_string_def)
  have "map fst (videos (fst (upload_handler ?s (example_request ''c.mp4'') ''v3'' 3))) = map fst (videos ?s) @ [''v3'']"
    using t[THEN conjunct2, THEN conjunct2, THEN conjunct2, THEN conjunct2, THEN conjunct1,
        rule_format, of "example_request ''c.mp4''" _ "''v3''" 3] example_request_file u by blast
  then have 3: "map fst (videos (fst (upload_handler ?s (example_request ''c.mp4'') ''v3'' 3))) = [''v1'', ''v2'', ''v3'']"
    unfolding ks by simp
  have up: "uploads example_two_uploads = [(''v1'', 1), (''v2'', 2)]"
    by (simp add: uploads_def upload_of_def example_two_uploads_def example_request_def)
  have nd: "\<forall>e \<in> set example_two_uploads. \<not> is_delete e"
    by (simp add: example_two_uploads_def is_delete_def)
  have di: "distinct (map fst (uploads example_two_uploads))" unfolding up by simp
  have "map (\<lambda>v. (video_id v, createdAt v)) (map (\<lambda>(k, r). heap ?s ! r) (videos ?s))
      = uploads example_two_uploads"
    using list_page_in_insertion_order[OF h, of ?s, THEN conjunct2, THEN conjunct2, THEN conjunct2,
        THEN conjunct2, THEN conjunct2, rule_format, of example_two_uploads default_config] nd di
    by blast
  then have 4: "map (\<lambda>v. (video_id v, createdAt v)) (map (\<lambda>(k, r). heap ?s ! r) (videos ?s))
      = [(''v1'', 1), (''v2'', 2)]"
    unfolding up .
  have nf: "filter is_delete example_two_uploads = []"
    by (simp add: example_two_uploads_def is_delete_def)
  from h(3,4) 1 2 3 nf di 4 show ?thesis by (intro conjI)
qed

text \<open>
  With a deletion the order of the registry need not be the order of the uploads: the
  \<open>catch\<close> block of a job that is still running puts the record of a deleted video back
  into the \<open>Map\<close>, at its end.
\<close>

lemma run_delete:
  "videos (run default_config example_delete_run) = [(''v2'', 1), (''v1'', 0)]
   \<and> map (\<lambda>v. (video_id v, createdAt v, status v)) (heap (run default_config example_delete_run))
       = [(''v1'', 1, Error), (''v2'', 2, Processing)]"
proof -
  have "run default_config example_delete_run =
      step default_config (step default_config (run default_config example_two_uploads) (Delete ''v1''))
        (Settle 0 Rejected 3)"
    by (simp add: example_delete_run_def example_two_uploads_def run_def)
  then show ?thesis unfolding run2
    by (simp add: step_def processVideo_resume_def processVideo_catch_def)
qed

lemma list_order_after_delete:
  "map (\<lambda>v. (video_id v, createdAt v))
     (fst (list_handler (run default_config example_delete_run) no_query)) = [(''v2'', 2), (''v1'', 1)]"
proof -
  let ?s = "run default_config example_delete_run"
  have 1: "fst (list_handler s no_query) = js_slice (map (\<lambda>(k, r). heap s ! r) (videos s)) 0 10" for s
    by (simp add: list_handler_def matching_videos_def truthy_def no_query_def Let_def)
  have h: "map (\<lambda>v. (video_id v, createdAt v)) (heap ?s) = [(''v1'', 1), (''v2'', 2)]"
    using run_delete[THEN conjunct2, THEN arg_cong, of "map (\<lambda>(i, c, st). (i, c))"]
    by (simp add: comp_def)
  then obtain a b where ab: "heap ?s = [a, b]" by (auto simp: map_eq_Cons_conv)
  have "map (\<lambda>(k, r). heap ?s ! r) (videos ?s) = [b, a]"
    unfolding run_delete[THEN conjunct1] ab by simp
  then show ?thesis unfolding 1 using h ab by (simp add: js_slice_def)
qed

section \<open>Paths of segments\<close>

lemma split_path_not_Nil [simp]: "split_path p \<noteq> []"
  by (induction p) (auto split: list.splits)








































end
